(* ===== verification/Prelude.thy ===== *)
theory Prelude
  imports Complex_Main "HOL-Library.Word" "HOL-Library.Monad_Syntax" "HOL-Library.Multiset"
begin

text \<open>
  What every component shares: machine integers and their overflow behaviour, \<open>HashMap\<close> and
  \<open>HashSet\<close> with their unspecified iteration order, decimal rendering (\<open>Display\<close> of unsigned
  integers), and two interfaces as locales: a bounded sliding window (three structures of the
  code keep one) and a transition system with an inductive invariant.

  A \<open>HashMap<K, V>\<close> is a map \<open>'k \<rightharpoonup> 'v\<close>. Code that iterates it sees its entries in an order that
  the standard library leaves open, so an iterating operation takes the entries as an argument
  \<open>es\<close> constrained by \<open>iterates es m\<close>: every statement is about every order.
\<close>

section \<open>Machine integers\<close>

type_synonym u16 = "16 word"
type_synonym u32 = "32 word"
type_synonym u64 = "64 word"
type_synonym usize = "64 word"

text \<open>A version-4 UUID is an opaque 128-bit value; wall-clock times are nanoseconds.\<close>

type_synonym uuid = "128 word"
type_synonym time = int

text \<open>
  Rust's unchecked \<open>+\<close> on an unsigned integer: a panic (\<open>None\<close>) on overflow when the build has
  overflow checks (the dev profile), wrap-around when it has not (the release profile).
\<close>

definition add_chk :: "bool \<Rightarrow> 'a::len word \<Rightarrow> 'a word \<Rightarrow> 'a word option" where
  "add_chk checks a b =
     (if unat a + unat b < 2 ^ LENGTH('a) \<or> \<not> checks then Some (a + b) else None)"

lemma unat_below: "unat (w :: 'a::len word) < 2 ^ LENGTH('a)"
  by simp

lemma add_chk_no_overflow:
  assumes "unat a + unat b < 2 ^ LENGTH('a)"
  shows "add_chk checks (a :: 'a::len word) b = Some (a + b)" and "unat (a + b) = unat a + unat b"
  using assms by (simp_all add: add_chk_def unat_word_ariths)

lemma unat_inc_below:
  assumes "(a :: 'a::len word) < b"
  shows "unat (a + 1) = unat a + 1" and "a + 1 \<le> b"
proof -
  have "unat a + 1 \<le> unat b" using assms by (simp add: word_less_nat_alt)
  moreover have "unat b < 2 ^ LENGTH('a)" by simp
  ultimately have "unat a + 1 < 2 ^ LENGTH('a)" by linarith
  then show u: "unat (a + 1) = unat a + 1" by (simp add: unat_word_ariths)
  show "a + 1 \<le> b" using u \<open>unat a + 1 \<le> unat b\<close> by (simp add: word_le_nat_alt)
qed

section \<open>Hash maps and their iteration orders\<close>

definition iterates :: "('k \<times> 'v) list \<Rightarrow> ('k \<rightharpoonup> 'v) \<Rightarrow> bool" where
  "iterates es m \<longleftrightarrow> distinct (map fst es) \<and> map_of es = m"

named_theorems hash_simps \<open>facts that read a map off an iteration order of it\<close>

lemma iteratesI: "distinct (map fst es) \<Longrightarrow> map_of es = m \<Longrightarrow> iterates es m"
  by (simp add: iterates_def)

lemma iterates_empty [hash_simps, simp]: "iterates [] m \<longleftrightarrow> m = Map.empty"
  by (auto simp: iterates_def)

lemma iterates_lookup [hash_simps]: "iterates es m \<Longrightarrow> m k = Some v \<longleftrightarrow> (k, v) \<in> set es"
  by (auto simp: iterates_def)

lemma iterates_keys [hash_simps]: "iterates es m \<Longrightarrow> set (map fst es) = dom m"
  unfolding iterates_def by (metis dom_map_of_conv_image_fst list.set_map)

lemma iterates_values [hash_simps]: "iterates es m \<Longrightarrow> set (map snd es) = ran m"
  unfolding iterates_def by (metis ran_distinct list.set_map)

lemma iterates_distinct: "iterates es m \<Longrightarrow> distinct (map fst es)"
  by (simp add: iterates_def)

lemma iterates_distinct_entries: "iterates es m \<Longrightarrow> distinct es"
  by (simp add: iterates_def distinct_map)

lemma iterates_finite: "iterates es m \<Longrightarrow> finite (dom m)"
  by (auto simp: iterates_def finite_dom_map_of)

lemma iterates_length: "iterates es m \<Longrightarrow> length es = card (dom m)"
  using distinct_card [of "map fst es"] by (simp add: iterates_keys [symmetric] iterates_distinct)

lemma iterates_exists: "finite (dom m) \<Longrightarrow> \<exists>es. iterates es m"
proof -
  assume fin: "finite (dom m)"
  obtain ks where ks: "distinct ks" "set ks = dom m"
    using finite_distinct_list [OF fin] by blast
  define es where "es = map (\<lambda>k. (k, the (m k))) ks"
  have "map fst es = ks" by (simp add: es_def comp_def)
  moreover have "map_of es k = m k" for k
    using ks(2) by (auto simp: es_def map_of_map_restrict restrict_map_def domIff)
  ultimately show ?thesis using ks(1) by (auto simp: iterates_def)
qed

text \<open>Two iterations of the same map hold the same entries, in possibly different orders.\<close>

lemma iterates_same_entries: "iterates es m \<Longrightarrow> iterates es' m \<Longrightarrow> set es = set es'"
  by (auto simp flip: iterates_lookup)

section \<open>Decimal rendering\<close>

definition digit :: "nat \<Rightarrow> char" where
  "digit d = char_of (48 + d)"

fun show_nat :: "nat \<Rightarrow> string" where
  "show_nat n = (if n < 10 then [digit n] else show_nat (n div 10) @ [digit (n mod 10)])"

declare show_nat.simps [simp del]

definition show_word :: "'a::len word \<Rightarrow> string" where
  "show_word w = show_nat (unat w)"

definition is_digit :: "char \<Rightarrow> bool" where
  "is_digit c \<longleftrightarrow> 48 \<le> (of_char c :: nat) \<and> (of_char c :: nat) < 58"

fun read_nat :: "nat \<Rightarrow> string \<Rightarrow> nat" where
  "read_nat acc [] = acc"
| "read_nat acc (c # cs) = read_nat (10 * acc + (of_char c - 48)) cs"

lemma read_nat_append: "read_nat acc (xs @ ys) = read_nat (read_nat acc xs) ys"
  by (induction xs arbitrary: acc) auto

lemma of_char_digit: "d < 10 \<Longrightarrow> (of_char (digit d) :: nat) = 48 + d"
  by (simp add: digit_def)

lemma read_show_nat: "read_nat 0 (show_nat n) = n"
proof (induction n rule: show_nat.induct)
  case (1 n)
  then show ?case
    by (cases "n < 10") (simp_all add: show_nat.simps [of n] of_char_digit read_nat_append)
qed

lemma show_nat_inject [simp]: "show_nat m = show_nat n \<longleftrightarrow> m = n"
  by (metis read_show_nat)

lemma show_word_inject [simp]: "show_word v = show_word w \<longleftrightarrow> v = (w :: 'a::len word)"
  by (simp add: show_word_def word_unat_eq_iff)

lemma show_nat_digits: "\<forall>c \<in> set (show_nat n). is_digit c"
proof (induction n rule: show_nat.induct)
  case (1 n)
  then show ?case
    by (cases "n < 10") (simp_all add: show_nat.simps [of n] is_digit_def of_char_digit)
qed

lemma show_word_digits: "c \<in> set (show_word w) \<Longrightarrow> is_digit c"
  using show_nat_digits by (auto simp: show_word_def)

lemma show_nat_nonempty [simp]: "show_nat n \<noteq> []"
  by (simp add: show_nat.simps [of n])

lemma digits:
  "digit 0 = CHR ''0''" "digit 1 = CHR ''1''" "digit (Suc 0) = CHR ''1''" "digit 2 = CHR ''2''" "digit 3 = CHR ''3''"
  "digit 8 = CHR ''8''" "digit 9 = CHR ''9''"
  by code_simp+

text \<open>\<open>str::contains\<close>.\<close>

fun contains :: "string \<Rightarrow> string \<Rightarrow> bool" where
  "contains [] sub = (sub = [])"
| "contains (c # cs) sub = (take (length sub) (c # cs) = sub \<or> contains cs sub)"

lemma contains_iff: "contains s sub \<longleftrightarrow> (\<exists>before after. s = before @ sub @ after)"
proof (induction s)
  case (Cons c cs)
  have "take (length sub) (c # cs) = sub \<longleftrightarrow> (\<exists>after. c # cs = sub @ after)"
    by (metis append_eq_conv_conj append_take_drop_id)
  then show ?case
    unfolding contains.simps Cons.IH by (auto simp: Cons_eq_append_conv)
qed auto

lemma contains_append [intro]: "contains s sub \<Longrightarrow> contains (s @ t) sub" "contains t sub \<Longrightarrow> contains (s @ t) sub"
  unfolding contains_iff by (metis append.assoc)+

text \<open>\<open>[String]::join(sep)\<close>.\<close>

fun join :: "string \<Rightarrow> string list \<Rightarrow> string" where
  "join sep [] = []"
| "join sep [s] = s"
| "join sep (s # t # ss) = s @ sep @ join sep (t # ss)"

text \<open>A field that does not contain the separator is read back unambiguously.\<close>

lemma split_at_separator:
  assumes "c \<notin> set xs" "c \<notin> set xs'" "xs @ c # ys = xs' @ c # ys'"
  shows "xs = xs' \<and> ys = ys'"
  using assms
proof (induction xs arbitrary: xs')
  case Nil
  then show ?case by (cases xs') auto
next
  case (Cons x xs)
  then show ?case by (cases xs') auto
qed

section \<open>Lists: the most recent \<open>n\<close> elements\<close>

definition last_n :: "nat \<Rightarrow> 'a list \<Rightarrow> 'a list" where
  "last_n n xs = drop (length xs - n) xs"

lemma length_last_n [simp]: "length (last_n n xs) = min n (length xs)"
  by (simp add: last_n_def)

lemma last_n_all: "length xs \<le> n \<Longrightarrow> last_n n xs = xs"
  by (simp add: last_n_def)

lemma last_n_Nil [simp]: "last_n n [] = []"
  by (simp add: last_n_def)

lemma set_last_n: "set (last_n n xs) \<subseteq> set xs"
  by (simp add: last_n_def set_drop_subset)

lemma last_n_snoc: "last_n n (last_n n xs @ [x]) = last_n n (xs @ [x])"
proof (cases n)
  case 0
  then show ?thesis by (simp add: last_n_def)
next
  case (Suc m)
  show ?thesis
  proof (cases "length xs \<le> n")
    case True
    then show ?thesis by (simp add: last_n_all)
  next
    case False
    then have "length (last_n n xs @ [x]) - n = 1" by simp
    moreover have "drop 1 (drop (length xs - n) xs) = drop (Suc (length xs) - n) xs"
      using False by (simp add: Suc_diff_le)
    ultimately show ?thesis using False Suc by (simp add: last_n_def)
  qed
qed

section \<open>Interface: a bounded sliding window\<close>

text \<open>
  A structure that appends observations and keeps the most recent \<open>cap\<close> of them. The client
  relies on one law; its consequence for a whole run is proved once here and used by the
  epsilon history, the SLO tracker and the warm-up's metric history.
\<close>

locale bounded_window =
  fixes push :: "'a \<Rightarrow> 'w \<Rightarrow> 'w"
    and contents :: "'w \<Rightarrow> 'a list"
    and cap :: "'w \<Rightarrow> nat"
    and ok :: "'w \<Rightarrow> bool"
  assumes contents_push: "ok w \<Longrightarrow> contents (push x w) = last_n (cap w) (contents w @ [x])"
    and cap_push: "ok w \<Longrightarrow> cap (push x w) = cap w"
    and ok_push: "ok w \<Longrightarrow> ok (push x w)"
begin

lemma ok_pushes: "ok w \<Longrightarrow> ok (fold push xs w)"
  by (induction xs arbitrary: w) (auto simp: ok_push)

lemma cap_pushes: "ok w \<Longrightarrow> cap (fold push xs w) = cap w"
  by (induction xs arbitrary: w) (auto simp: ok_push cap_push)

lemma contents_pushes:
  assumes "ok w" "contents w = last_n (cap w) zs"
  shows "contents (fold push xs w) = last_n (cap w) (zs @ xs)"
  using assms
proof (induction xs arbitrary: w zs)
  case Nil
  then show ?case by simp
next
  case (Cons x xs)
  have "contents (push x w) = last_n (cap (push x w)) (zs @ [x])"
    using Cons.prems by (simp add: contents_push cap_push last_n_snoc)
  with Cons.IH [OF ok_push [OF Cons.prems(1)]] show ?case
    by (simp add: cap_push [OF Cons.prems(1)])
qed

lemma window_length:
  "ok w \<Longrightarrow> length (contents w) \<le> cap w \<Longrightarrow> length (contents (fold push xs w)) \<le> cap w"
  using contents_pushes [of w "contents w" xs] by (simp add: last_n_all)

end

section \<open>Interface: records kept under a key, with a status each\<close>

text \<open>
  A table of entries whose status is overwritten key by key; writing an unknown key changes
  nothing. The graph store, the cluster's nodes and the control plane's graphs provide it. The
  client's consequences: the table's keys never change, and after any run of writes a known
  key has the status written last.
\<close>

locale status_table =
  fixes lookup :: "'s \<Rightarrow> 'k \<Rightarrow> 'v option"
    and status_of :: "'v \<Rightarrow> 'x"
    and put :: "'k \<Rightarrow> 'x \<Rightarrow> 's \<Rightarrow> 's"
  assumes write_known: "lookup s k = Some v \<Longrightarrow> \<exists>v'. lookup (put k x s) k = Some v' \<and> status_of v' = x"
    and write_unknown: "lookup s k = None \<Longrightarrow> lookup (put k x s) k = None"
    and write_other: "k' \<noteq> k \<Longrightarrow> lookup (put k x s) k' = lookup s k'"
begin

definition writes :: "('k \<times> 'x) list \<Rightarrow> 's \<Rightarrow> 's" where
  "writes ws s = fold (\<lambda>(k, x). put k x) ws s"

lemma writes_simps [simp]:
  "writes [] s = s" "writes ((k, x) # ws) s = writes ws (put k x s)"
  by (simp_all add: writes_def)

lemma write_known_iff: "lookup (put k x s) k' = None \<longleftrightarrow> lookup s k' = None"
  by (cases "k' = k"; cases "lookup s k") (auto simp: write_other write_unknown dest: write_known [of _ _ _ x])

lemma writes_known_iff: "lookup (writes ws s) k = None \<longleftrightarrow> lookup s k = None"
  by (induction ws arbitrary: s) (auto simp: write_known_iff)

lemma writes_untouched: "k \<notin> fst ` set ws \<Longrightarrow> lookup (writes ws s) k = lookup s k"
  by (induction ws arbitrary: s) (auto simp: write_other)

lemma last_write_wins:
  assumes "lookup s k = Some v" "k \<notin> fst ` set later"
  shows "\<exists>v'. lookup (writes (earlier @ (k, x) # later) s) k = Some v' \<and> status_of v' = x"
proof -
  have "writes (earlier @ (k, x) # later) s = writes later (put k x (writes earlier s))"
    by (simp add: writes_def)
  moreover obtain v1 where "lookup (writes earlier s) k = Some v1"
    using assms(1) writes_known_iff [of earlier s k] by (cases "lookup (writes earlier s) k") auto
  ultimately show ?thesis
    using write_known [of _ k v1 x] writes_untouched [OF assms(2)] by metis
qed

end

text \<open>
  A table whose entries can be claimed: \<open>alloc\<close> picks free entries in some iteration order of
  the table. The client's consequence: claims made one after the other never share an entry.
\<close>

locale claim_table = status_table lookup status_of put
  for lookup :: "'s \<Rightarrow> 'k \<Rightarrow> 'v option" and status_of :: "'v \<Rightarrow> 'x" and put :: "'k \<Rightarrow> 'x \<Rightarrow> 's \<Rightarrow> 's" +
  fixes valid :: "'ord \<Rightarrow> 's \<Rightarrow> bool"
    and alloc :: "'ord \<Rightarrow> nat \<Rightarrow> 'k list"
    and free :: 'x
  assumes alloc_free: "valid r s \<Longrightarrow> k \<in> set (alloc r n) \<Longrightarrow> \<exists>v. lookup s k = Some v \<and> status_of v = free"
    and alloc_distinct: "valid r s \<Longrightarrow> distinct (alloc r n)"
    and alloc_bound: "length (alloc r n) \<le> n"
    and alloc_short: "valid r s \<Longrightarrow> length (alloc r n) < n \<Longrightarrow> lookup s k = Some v \<Longrightarrow> status_of v = free
      \<Longrightarrow> k \<in> set (alloc r n)"
begin

definition claim :: "'k list \<Rightarrow> 'x \<Rightarrow> 's \<Rightarrow> 's" where
  "claim ks x s = writes (map (\<lambda>k. (k, x)) ks) s"

lemma claim_simps [simp]: "claim [] x s = s" "claim (k # ks) x s = claim ks x (put k x s)"
  by (simp_all add: claim_def)

lemma claim_untouched: "k \<notin> set ks \<Longrightarrow> lookup (claim ks x s) k = lookup s k"
  unfolding claim_def by (rule writes_untouched) auto

lemma claim_known_iff: "lookup (claim ks x s) k = None \<longleftrightarrow> lookup s k = None"
  by (simp add: claim_def writes_known_iff)

lemma claim_marks:
  "k \<in> set ks \<Longrightarrow> lookup s k = Some v \<Longrightarrow> \<exists>v'. lookup (claim ks x s) k = Some v' \<and> status_of v' = x"
proof (induction ks arbitrary: s v)
  case (Cons k' ks)
  show ?case
  proof (cases "k \<in> set ks")
    case True
    moreover obtain v' where "lookup (put k' x s) k = Some v'"
      using Cons.prems(2) write_known_iff [of k' x s k] by (cases "lookup (put k' x s) k") auto
    ultimately show ?thesis using Cons.IH by simp
  next
    case False
    then have "k = k'" using Cons.prems(1) by simp
    then show ?thesis
      using write_known [of s k v x] Cons.prems(2) claim_untouched [OF False, of x "put k' x s"] by simp
  qed
qed simp

lemma claims_disjoint:
  assumes "valid r s" "valid r' s'" "x \<noteq> free"
    and "\<And>k. k \<in> set (alloc r n) \<Longrightarrow> lookup s' k = lookup (claim (alloc r n) x s) k"
  shows "set (alloc r n) \<inter> set (alloc r' n') = {}"
proof (intro equals0I)
  fix k assume "k \<in> set (alloc r n) \<inter> set (alloc r' n')"
  then have k: "k \<in> set (alloc r n)" "k \<in> set (alloc r' n')" by simp_all
  obtain v where "lookup s k = Some v" using alloc_free [OF assms(1) k(1)] by blast
  then obtain v' where "lookup s' k = Some v'" "status_of v' = x"
    using claim_marks [OF k(1)] assms(4) [OF k(1)] by metis
  moreover obtain v'' where "lookup s' k = Some v''" "status_of v'' = free"
    using alloc_free [OF assms(2) k(2)] by blast
  ultimately show False using assms(3) by simp
qed

end

section \<open>Interface: admission under a quota\<close>

text \<open>
  A gate that admits a tenant's request while the tenant uses less than its limit, and counts
  what it admits; a tenant without a limit is not counted. The control plane's tenant quotas
  and the Wasm tenant resource manager provide it.
\<close>

locale quota_gate =
  fixes admit :: "'t \<Rightarrow> 's \<Rightarrow> 's option"
    and used :: "'s \<Rightarrow> 't \<Rightarrow> nat"
    and limit :: "'s \<Rightarrow> 't \<Rightarrow> nat option"
  assumes admit_below: "admit t s = Some s' \<Longrightarrow> limit s t = Some l \<Longrightarrow> used s t < l"
    and admit_counts: "admit t s = Some s' \<Longrightarrow> limit s t = Some l \<Longrightarrow> used s' t = Suc (used s t)"
    and admit_other: "admit t s = Some s' \<Longrightarrow> t' \<noteq> t \<Longrightarrow> used s' t' = used s t'"
    and admit_limit: "admit t s = Some s' \<Longrightarrow> limit s' = limit s"
begin

fun admit_all :: "'t list \<Rightarrow> 's \<Rightarrow> 't list \<times> 's" where
  "admit_all [] s = ([], s)"
| "admit_all (t # ts) s =
     (case admit t s of
        None \<Rightarrow> admit_all ts s
      | Some s' \<Rightarrow> (case admit_all ts s' of (adm, s'') \<Rightarrow> (t # adm, s'')))"

lemma admit_all_counts:
  "admit_all ts s = (adm, s') \<Longrightarrow> limit s t = Some l \<Longrightarrow> used s' t = used s t + count_list adm t"
proof (induction ts arbitrary: s adm)
  case (Cons t' ts)
  show ?case
  proof (cases "admit t' s")
    case None
    then show ?thesis using Cons by simp
  next
    case (Some s1)
    obtain adm1 where adm: "adm = t' # adm1" "admit_all ts s1 = (adm1, s')"
      using Cons.prems(1) Some by (auto split: prod.splits)
    then have "used s' t = used s1 t + count_list adm1 t"
      using Cons.IH Cons.prems(2) admit_limit [OF Some] by simp
    then show ?thesis
      using adm(1) Some Cons.prems(2) admit_counts [of t s] admit_other [of t' s s1 t]
      by (cases "t' = t") auto
  qed
qed simp

lemma admit_all_within:
  "admit_all ts s = (adm, s') \<Longrightarrow> limit s t = Some l \<Longrightarrow> used s t \<le> l \<Longrightarrow> used s' t \<le> l"
proof (induction ts arbitrary: s adm)
  case (Cons t' ts)
  show ?case
  proof (cases "admit t' s")
    case None
    then show ?thesis using Cons by simp
  next
    case (Some s1)
    have "used s1 t \<le> l"
      using Some Cons.prems(2,3) admit_below [of t s] admit_counts [of t s] admit_other [OF Some, of t]
      by (cases "t' = t") fastforce+
    moreover obtain adm1 where "admit_all ts s1 = (adm1, s')"
      using Cons.prems(1) Some by (auto split: prod.splits)
    ultimately show ?thesis using Cons.IH Cons.prems(2) admit_limit [OF Some] by simp
  qed
qed simp

text \<open>However many requests arrive, no more are admitted than the limit leaves room for.\<close>

lemma admitted_bound:
  assumes "admit_all ts s = (adm, s')" "limit s t = Some l" "used s t \<le> l"
  shows "used s t + count_list adm t \<le> l"
  using admit_all_counts [OF assms(1,2)] admit_all_within [OF assms] by simp

end

section \<open>Interface: a transition system with an inductive invariant\<close>

text \<open>
  The states a system reaches from its initial states, and the rule that an invariant every
  initial state has and every step keeps holds in all of them.
\<close>

inductive reach :: "('s \<Rightarrow> bool) \<Rightarrow> ('s \<Rightarrow> 's \<Rightarrow> bool) \<Rightarrow> 's \<Rightarrow> bool" for init step where
  reach_init: "init s \<Longrightarrow> reach init step s"
| reach_step: "reach init step s \<Longrightarrow> step s t \<Longrightarrow> reach init step t"

locale invariant_system =
  fixes init :: "'s \<Rightarrow> bool"
    and step :: "'s \<Rightarrow> 's \<Rightarrow> bool"
    and inv :: "'s \<Rightarrow> bool"
  assumes inv_init: "init s \<Longrightarrow> inv s"
    and inv_step: "inv s \<Longrightarrow> step s t \<Longrightarrow> inv t"
begin

lemma reach_inv: "reach init step s \<Longrightarrow> inv s"
  by (induction rule: reach.induct) (auto intro: inv_init inv_step)

lemma inv_steps: "step\<^sup>*\<^sup>* s t \<Longrightarrow> inv s \<Longrightarrow> inv t"
  by (induction rule: rtranclp_induct) (auto intro: inv_step)

end

lemma reach_rtranclp: "step\<^sup>*\<^sup>* s t \<Longrightarrow> reach init step s \<Longrightarrow> reach init step t"
  by (induction rule: rtranclp_induct) (auto intro: reach_step)

end
