(* ===== verification/CoreTypes.thy ===== *)
theory CoreTypes
  imports Prelude
begin

text \<open>
  The data model of the core crate (\<open>kineplex-core/src/lib.rs\<close> and \<open>error.rs\<close>): graph identifiers,
  pipeline stages, the status of a graph, graphs with their configuration, execution results
  with their metrics, and the error type every fallible operation returns. Builder methods take
  and return the record, as the Rust methods take and return \<open>self\<close>.

  \<open>Result<T>\<close> is \<open>core_error + 't\<close>. Rendering a UUID belongs to the \<open>uuid\<close> crate and is the
  parameter \<open>show_uuid\<close> of the definitions that need it; an \<open>io::Error\<close> is kept as its message.
\<close>

section \<open>Errors\<close>

datatype core_error =
    GraphNotFound string
  | ExecutionFailed string
  | WasmError string
  | DataPlaneError string
  | SerializationError string
  | IoError string
  | ParquetError string
  | ArrowError string
  | InvalidState string
  | QuotaExceeded string
  | AuthenticationRequired
  | AuthorizationFailed string
  | IdempotencyKeyExists string
  | ProtocolVersionMismatch string string

fun core_error_display :: "core_error \<Rightarrow> string" where
  "core_error_display (GraphNotFound s) = ''Graph not found: '' @ s"
| "core_error_display (ExecutionFailed s) = ''Execution failed: '' @ s"
| "core_error_display (WasmError s) = ''Wasm runtime error: '' @ s"
| "core_error_display (DataPlaneError s) = ''Data plane error: '' @ s"
| "core_error_display (SerializationError s) = ''Serialization error: '' @ s"
| "core_error_display (IoError s) = ''IO error: '' @ s"
| "core_error_display (ParquetError s) = ''Parquet error: '' @ s"
| "core_error_display (ArrowError s) = ''Arrow error: '' @ s"
| "core_error_display (InvalidState s) = ''Graph not in valid state for operation: '' @ s"
| "core_error_display (QuotaExceeded s) = ''Resource quota exceeded: '' @ s"
| "core_error_display AuthenticationRequired = ''Authentication required''"
| "core_error_display (AuthorizationFailed s) = ''Authorization failed: '' @ s"
| "core_error_display (IdempotencyKeyExists s) = ''Idempotency key already exists: '' @ s"
| "core_error_display (ProtocolVersionMismatch expected got) =
     ''Protocol version mismatch: expected '' @ expected @ '', got '' @ got"

type_synonym 'a result = "core_error + 'a"

section \<open>Identifiers, stages, status\<close>

datatype graph_id = GraphId (graph_uuid: uuid)

definition graph_id_display :: "(uuid \<Rightarrow> string) \<Rightarrow> graph_id \<Rightarrow> string" where
  "graph_id_display show_uuid gid = show_uuid (graph_uuid gid)"

datatype stage = Receptor | Wasm | Aggregation | Terminal

fun stage_name :: "stage \<Rightarrow> string" where
  "stage_name Receptor = ''receptor''"
| "stage_name Wasm = ''wasm''"
| "stage_name Aggregation = ''aggregation''"
| "stage_name Terminal = ''terminal''"

definition stage_all :: "stage list" where
  "stage_all = [Receptor, Wasm, Aggregation, Terminal]"

text \<open>The derived \<open>Debug\<close> rendering, which the executors use as the key of a stage's time.\<close>

fun stage_debug :: "stage \<Rightarrow> string" where
  "stage_debug Receptor = ''Receptor''"
| "stage_debug Wasm = ''Wasm''"
| "stage_debug Aggregation = ''Aggregation''"
| "stage_debug Terminal = ''Terminal''"

datatype graph_status = Pending | Running | Completed | Failed string | Cancelled

fun is_terminal :: "graph_status \<Rightarrow> bool" where
  "is_terminal Completed = True"
| "is_terminal (Failed _) = True"
| "is_terminal Cancelled = True"
| "is_terminal _ = False"

fun is_active :: "graph_status \<Rightarrow> bool" where
  "is_active Pending = True"
| "is_active Running = True"
| "is_active _ = False"

fun status_as_str :: "graph_status \<Rightarrow> string" where
  "status_as_str Pending = ''pending''"
| "status_as_str Running = ''running''"
| "status_as_str Completed = ''completed''"
| "status_as_str (Failed _) = ''failed''"
| "status_as_str Cancelled = ''cancelled''"

fun status_display :: "graph_status \<Rightarrow> string" where
  "status_display Pending = ''pending''"
| "status_display Running = ''running''"
| "status_display Completed = ''completed''"
| "status_display (Failed msg) = ''failed: '' @ msg"
| "status_display Cancelled = ''cancelled''"

section \<open>Configuration and graphs\<close>

record graph_config =
  gc_max_memory_mb :: u64
  gc_max_fuel :: u64
  gc_enable_simd :: bool
  gc_output_path :: "string option"

definition graph_config_default :: graph_config where
  "graph_config_default = \<lparr>gc_max_memory_mb = 512, gc_max_fuel = 1000000,
     gc_enable_simd = True, gc_output_path = None\<rparr>"

definition graph_config_new :: graph_config where
  "graph_config_new = graph_config_default"

definition with_max_memory :: "u64 \<Rightarrow> graph_config \<Rightarrow> graph_config" where
  "with_max_memory mb c = c\<lparr>gc_max_memory_mb := mb\<rparr>"

definition with_max_fuel :: "u64 \<Rightarrow> graph_config \<Rightarrow> graph_config" where
  "with_max_fuel fuel c = c\<lparr>gc_max_fuel := fuel\<rparr>"

definition with_simd :: "bool \<Rightarrow> graph_config \<Rightarrow> graph_config" where
  "with_simd enable c = c\<lparr>gc_enable_simd := enable\<rparr>"

definition with_output_path :: "string \<Rightarrow> graph_config \<Rightarrow> graph_config" where
  "with_output_path path c = c\<lparr>gc_output_path := Some path\<rparr>"

record graph =
  g_id :: graph_id
  g_status :: graph_status
  g_stages :: "stage list"
  g_tenant_id :: "string option"
  g_config :: graph_config

definition graph_new :: "graph_id \<Rightarrow> graph_config \<Rightarrow> graph" where
  "graph_new gid config = \<lparr>g_id = gid, g_status = Pending, g_stages = stage_all,
     g_tenant_id = None, g_config = config\<rparr>"

definition with_tenant :: "string \<Rightarrow> graph \<Rightarrow> graph" where
  "with_tenant tenant g = g\<lparr>g_tenant_id := Some tenant\<rparr>"

definition with_status :: "graph_status \<Rightarrow> graph \<Rightarrow> graph" where
  "with_status status g = g\<lparr>g_status := status\<rparr>"

definition stages_count :: "graph \<Rightarrow> nat" where
  "stages_count g = length (g_stages g)"

text \<open>\<open>GraphId::new()\<close> draws a random UUID: the identifier is an argument.\<close>

definition create_distributed_graph :: "graph_id \<Rightarrow> string option \<Rightarrow> graph_config \<Rightarrow> graph" where
  "create_distributed_graph gid tenant config =
     \<lparr>g_id = gid, g_status = Pending, g_stages = [Receptor, Wasm, Aggregation, Terminal],
      g_tenant_id = tenant, g_config = config\<rparr>"

definition create_simple_graph :: "graph_id \<Rightarrow> string option \<Rightarrow> graph" where
  "create_simple_graph gid tenant = create_distributed_graph gid tenant graph_config_default"

section \<open>Results and metrics\<close>

record execution_metrics =
  em_total_time_ms :: u64
  em_stage_times_ms :: "string \<rightharpoonup> u64"
  em_memory_peak_bytes :: u64
  em_cpu_time_ms :: u64
  em_rows_processed :: u64
  em_nodes_involved :: u32

definition execution_metrics_new :: execution_metrics where
  "execution_metrics_new = \<lparr>em_total_time_ms = 0, em_stage_times_ms = Map.empty,
     em_memory_peak_bytes = 0, em_cpu_time_ms = 0, em_rows_processed = 0, em_nodes_involved = 0\<rparr>"

definition with_stage_time :: "string \<Rightarrow> u64 \<Rightarrow> execution_metrics \<Rightarrow> execution_metrics" where
  "with_stage_time stg ms m = m\<lparr>em_stage_times_ms := (em_stage_times_ms m)(stg \<mapsto> ms)\<rparr>"

definition with_memory :: "u64 \<Rightarrow> execution_metrics \<Rightarrow> execution_metrics" where
  "with_memory bytes m = m\<lparr>em_memory_peak_bytes := bytes\<rparr>"

definition with_cpu_time :: "u64 \<Rightarrow> execution_metrics \<Rightarrow> execution_metrics" where
  "with_cpu_time ms m = m\<lparr>em_cpu_time_ms := ms\<rparr>"

definition with_rows :: "u64 \<Rightarrow> execution_metrics \<Rightarrow> execution_metrics" where
  "with_rows n m = m\<lparr>em_rows_processed := n\<rparr>"

definition with_nodes :: "u32 \<Rightarrow> execution_metrics \<Rightarrow> execution_metrics" where
  "with_nodes n m = m\<lparr>em_nodes_involved := n\<rparr>"

text \<open>
  \<open>values().sum()\<close> over \<open>u64\<close>, in the iteration order \<open>es\<close> of the stage times: with overflow
  checks the sum panics (\<open>None\<close>), without them it wraps.
\<close>

fun sum_u64 :: "bool \<Rightarrow> u64 \<Rightarrow> u64 list \<Rightarrow> u64 option" where
  "sum_u64 checks acc [] = Some acc"
| "sum_u64 checks acc (v # vs) = do { acc' \<leftarrow> add_chk checks acc v; sum_u64 checks acc' vs }"

definition total_stage_time :: "bool \<Rightarrow> (string \<times> u64) list \<Rightarrow> u64 option" where
  "total_stage_time checks es = sum_u64 checks 0 (map snd es)"

record execution_result =
  er_graph_id :: graph_id
  er_status :: graph_status
  er_output :: "8 word list option"
  er_output_path :: "string option"
  er_metrics :: execution_metrics

definition execution_result_new :: "graph_id \<Rightarrow> graph_status \<Rightarrow> execution_metrics \<Rightarrow> execution_result" where
  "execution_result_new gid status metrics = \<lparr>er_graph_id = gid, er_status = status,
     er_output = None, er_output_path = None, er_metrics = metrics\<rparr>"

definition with_output :: "8 word list \<Rightarrow> execution_result \<Rightarrow> execution_result" where
  "with_output bytes r = r\<lparr>er_output := Some bytes\<rparr>"

definition with_result_path :: "string \<Rightarrow> execution_result \<Rightarrow> execution_result" where
  "with_result_path path r = r\<lparr>er_output_path := Some path\<rparr>"

definition is_success :: "execution_result \<Rightarrow> bool" where
  "is_success r \<longleftrightarrow> er_status r = Completed"

section \<open>Lemmas\<close>

named_theorems core_defs \<open>the builders of the core data model\<close>

lemmas core_builders [core_defs] =
  graph_config_default_def graph_config_new_def with_max_memory_def with_max_fuel_def with_simd_def
  with_output_path_def graph_new_def with_tenant_def with_status_def stages_count_def
  create_distributed_graph_def create_simple_graph_def execution_metrics_new_def
  with_stage_time_def with_memory_def with_cpu_time_def with_rows_def with_nodes_def
  execution_result_new_def with_output_def with_result_path_def is_success_def

lemma terminal_iff_not_active: "is_terminal s \<longleftrightarrow> \<not> is_active s"
  by (cases s) simp_all

lemma stage_debug_inject [simp]: "stage_debug s = stage_debug t \<longleftrightarrow> s = t"
  by (cases s; cases t) simp_all

lemma stage_name_inject [simp]: "stage_name s = stage_name t \<longleftrightarrow> s = t"
  by (cases s; cases t) simp_all

lemma set_stage_all: "set stage_all = UNIV"
  by (auto simp: stage_all_def) (metis stage.exhaust)

text \<open>The sum is exact or overflows as a whole: partial sums do not matter.\<close>

lemma sum_u64_eq:
  "sum_u64 checks acc vs =
     (if unat acc + sum_list (map unat vs) < 2 ^ 64 \<or> \<not> checks
      then Some (acc + sum_list vs) else None)"
proof (induction vs arbitrary: acc)
  case Nil
  have "unat acc < 2 ^ 64" using unat_below [of acc] by simp
  then show ?case by simp
next
  case (Cons v vs)
  show ?case
  proof (cases "unat acc + unat v < 2 ^ 64")
    case True
    then show ?thesis
      using Cons.IH [of "acc + v"] add_chk_no_overflow [of acc v] by (simp add: add.assoc)
  next
    case False
    then show ?thesis using Cons.IH [of "acc + v"] by (cases checks) (simp_all add: add_chk_def add.assoc)
  qed
qed

text \<open>
  The sum of the stage times does not depend on the order in which the hash map is
  iterated: in both build profiles, and also when it overflows.
\<close>

theorem total_stage_time_order_independent:
  assumes "iterates es m" and "iterates es' m"
  shows "total_stage_time checks es = total_stage_time checks es'"
proof -
  have "distinct es" "distinct es'" "set es = set es'"
    using assms by (auto dest: iterates_distinct_entries iterates_same_entries)
  then have "mset es = mset es'" by (simp add: set_eq_iff_mset_eq_distinct)
  then have "mset (map snd es) = mset (map snd es')" by simp
  then have "sum_list (map snd es) = sum_list (map snd es')"
    and "sum_list (map unat (map snd es)) = sum_list (map unat (map snd es'))"
    by (metis sum_mset_sum_list, metis mset_map sum_mset_sum_list)
  then show ?thesis by (simp add: total_stage_time_def sum_u64_eq)
qed

theorem total_stage_time_order_independent_witness:
  "total_stage_time True [(''decode'', 2 ^ 63), (''sum'', 2 ^ 62)] = total_stage_time True [(''sum'', 2 ^ 62), (''decode'', 2 ^ 63)]"
proof -
  let ?m = "[''decode'' \<mapsto> 2 ^ 63, ''sum'' \<mapsto> 2 ^ 62]"
  have "iterates [(''decode'', 2 ^ 63), (''sum'', 2 ^ 62)] ?m" "iterates [(''sum'', 2 ^ 62), (''decode'', 2 ^ 63)] ?m"
    by (auto intro!: iteratesI ext)
  then show ?thesis by (rule total_stage_time_order_independent)
qed

end
