(* ===== verification/GraphStore.thy ===== *)
theory GraphStore
  imports CoreTypes
begin

text \<open>
  The graph store and the executor over it (\<open>kineplex-core/src/graph.rs\<close>). The store's two
  hash maps are the fields of a record; a method that takes a write lock returns the new store
  beside its result. \<open>DistributedGraphExecutor\<close> holds only an \<open>Arc\<close> of the store, so its
  methods are functions of the store. Elapsed times are read from the clock and are arguments.

  The last sections take the executor's \<open>submit\<close> and \<open>execute\<close> apart into the lock-protected
  actions they are made of, as a transition system whose threads interleave.
\<close>

section \<open>The store\<close>

record graph_store =
  graphs :: "graph_id \<rightharpoonup> graph"
  idempotency_keys :: "string \<rightharpoonup> graph_id"

definition graph_store_new :: graph_store where
  "graph_store_new = \<lparr>graphs = Map.empty, idempotency_keys = Map.empty\<rparr>"

definition create_graph :: "graph \<Rightarrow> graph_store \<Rightarrow> graph_store \<times> graph_id result" where
  "create_graph g s = (s\<lparr>graphs := (graphs s)(g_id g \<mapsto> g)\<rparr>, Inr (g_id g))"

definition get_graph :: "(uuid \<Rightarrow> string) \<Rightarrow> graph_id \<Rightarrow> graph_store \<Rightarrow> graph result" where
  "get_graph show_uuid gid s =
     (case graphs s gid of None \<Rightarrow> Inl (GraphNotFound (show_uuid (graph_uuid gid))) | Some g \<Rightarrow> Inr g)"

definition update_status ::
  "(uuid \<Rightarrow> string) \<Rightarrow> graph_id \<Rightarrow> graph_status \<Rightarrow> graph_store \<Rightarrow> graph_store \<times> unit result" where
  "update_status show_uuid gid status s =
     (case graphs s gid of
        None \<Rightarrow> (s, Inl (GraphNotFound (show_uuid (graph_uuid gid))))
      | Some g \<Rightarrow> (s\<lparr>graphs := (graphs s)(gid \<mapsto> g\<lparr>g_status := status\<rparr>)\<rparr>, Inr ()))"

definition check_idempotency :: "string \<Rightarrow> graph_store \<Rightarrow> graph_id option" where
  "check_idempotency key s = idempotency_keys s key"

definition register_idempotency :: "string \<Rightarrow> graph_id \<Rightarrow> graph_store \<Rightarrow> graph_store" where
  "register_idempotency key gid s = s\<lparr>idempotency_keys := (idempotency_keys s)(key \<mapsto> gid)\<rparr>"

text \<open>\<open>es\<close> is the iteration order of the \<open>graphs\<close> map.\<close>

definition list_graphs :: "(graph_id \<times> graph) list \<Rightarrow> graph list" where
  "list_graphs es = map snd es"

section \<open>Idempotency keys with a lifetime\<close>

record idempotency_key =
  ik_key :: string
  ik_created_at :: time
  ik_expires_at :: time

text \<open>Adding a \<open>chrono::Duration::hours\<close> to a time is the parameter \<open>plus_hours\<close>.\<close>

definition idempotency_key_new :: "(time \<Rightarrow> int \<Rightarrow> time) \<Rightarrow> time \<Rightarrow> string \<Rightarrow> int \<Rightarrow> idempotency_key" where
  "idempotency_key_new plus_hours now key ttl_hours =
     \<lparr>ik_key = key, ik_created_at = now, ik_expires_at = plus_hours now ttl_hours\<rparr>"

definition idempotency_key_is_valid :: "time \<Rightarrow> idempotency_key \<Rightarrow> bool" where
  "idempotency_key_is_valid now k \<longleftrightarrow> now < ik_expires_at k"

section \<open>The executor\<close>

text \<open>The stage loop records the elapsed time of each stage; \<open>elapsed i\<close> is the i-th reading.\<close>

fun record_stages :: "(nat \<Rightarrow> u64) \<Rightarrow> nat \<Rightarrow> stage list \<Rightarrow> (string \<rightharpoonup> u64) \<Rightarrow> (string \<rightharpoonup> u64)" where
  "record_stages elapsed i [] tms = tms"
| "record_stages elapsed i (stg # rest) tms =
     record_stages elapsed (Suc i) rest (tms(stage_debug stg \<mapsto> elapsed i))"

definition executor_execute ::
  "(uuid \<Rightarrow> string) \<Rightarrow> (nat \<Rightarrow> u64) \<Rightarrow> u64 \<Rightarrow> graph_id \<Rightarrow> graph_store \<Rightarrow> graph_store \<times> execution_result result" where
  "executor_execute show_uuid elapsed total_ms gid s =
     (case get_graph show_uuid gid s of
        Inl e \<Rightarrow> (s, Inl e)
      | Inr g \<Rightarrow>
          (case update_status show_uuid gid Running s of
             (s1, Inl e) \<Rightarrow> (s1, Inl e)
           | (s1, Inr _) \<Rightarrow>
               (let tms = record_stages elapsed 0 (g_stages g) Map.empty;
                    res = \<lparr>er_graph_id = gid, er_status = Completed, er_output = Some [],
                      er_output_path = gc_output_path (g_config g),
                      er_metrics = \<lparr>em_total_time_ms = total_ms, em_stage_times_ms = tms,
                        em_memory_peak_bytes = 0, em_cpu_time_ms = 0, em_rows_processed = 0,
                        em_nodes_involved = 1\<rparr>\<rparr>
                in case update_status show_uuid gid Completed s1 of
                     (s2, Inl e) \<Rightarrow> (s2, Inl e)
                   | (s2, Inr _) \<Rightarrow> (s2, Inr res))))"

definition executor_submit :: "graph \<Rightarrow> string option \<Rightarrow> graph_store \<Rightarrow> graph_store \<times> graph_id result" where
  "executor_submit g key s =
     (case Option.bind key (\<lambda>k. check_idempotency k s) of
        Some existing \<Rightarrow> (s, Inr existing)
      | None \<Rightarrow>
          (case create_graph g s of
             (s1, Inl e) \<Rightarrow> (s1, Inl e)
           | (s1, Inr _) \<Rightarrow>
               ((case key of None \<Rightarrow> s1 | Some k \<Rightarrow> register_idempotency k (g_id g) s1), Inr (g_id g))))"

definition executor_cancel :: "(uuid \<Rightarrow> string) \<Rightarrow> graph_id \<Rightarrow> graph_store \<Rightarrow> graph_store \<times> unit result" where
  "executor_cancel show_uuid gid s = update_status show_uuid gid Cancelled s"

definition executor_status :: "(uuid \<Rightarrow> string) \<Rightarrow> graph_id \<Rightarrow> graph_store \<Rightarrow> graph_status result" where
  "executor_status show_uuid gid s = map_sum (\<lambda>e. e) g_status (get_graph show_uuid gid s)"

section \<open>The store as a status table\<close>

definition store_write :: "graph_id \<Rightarrow> graph_status \<Rightarrow> graph_store \<Rightarrow> graph_store" where
  "store_write gid status s = fst (update_status (\<lambda>_. []) gid status s)"

interpretation gs: status_table graphs g_status store_write
  by unfold_locales (auto simp: store_write_def update_status_def split: option.splits)

lemma update_status_store: "fst (update_status show_uuid gid status s) = store_write gid status s"
  by (simp add: store_write_def update_status_def split: option.splits)

lemma update_status_result:
  "snd (update_status show_uuid gid status s) =
     (if graphs s gid = None then Inl (GraphNotFound (show_uuid (graph_uuid gid))) else Inr ())"
  by (simp add: update_status_def split: option.splits)

lemma store_write_keys [simp]: "idempotency_keys (store_write gid status s) = idempotency_keys s"
  by (simp add: store_write_def update_status_def split: option.splits)

lemma store_write_graph:
  "graphs s gid = Some g \<Longrightarrow> store_write gid status s = s\<lparr>graphs := (graphs s)(gid \<mapsto> g\<lparr>g_status := status\<rparr>)\<rparr>"
  by (simp add: store_write_def update_status_def)

lemmas store_op_defs = create_graph_def get_graph_def check_idempotency_def register_idempotency_def

section \<open>Executing a graph\<close>

lemma record_stages_lookup:
  "record_stages elapsed i stgs tms k =
     (case map_of (rev (zip (map stage_debug stgs) (map elapsed [i ..< i + length stgs]))) k of
        None \<Rightarrow> tms k | Some v \<Rightarrow> Some v)"
proof (induction stgs arbitrary: i tms)
  case Nil
  then show ?case by simp
next
  case (Cons stg stgs)
  have "[i ..< i + length (stg # stgs)] = i # [Suc i ..< Suc i + length stgs]"
    by (simp add: upt_conv_Cons del: upt_Suc)
  then show ?case
    by (simp add: Cons.IH map_add_def split: option.splits del: upt_Suc)
qed

lemma dom_record_stages: "dom (record_stages elapsed i stgs tms) = dom tms \<union> stage_debug ` set stgs"
  by (induction stgs arbitrary: i tms) auto

lemma executor_execute_known:
  assumes "graphs s gid = Some g"
  shows "executor_execute show_uuid elapsed total_ms gid s =
    (store_write gid Completed s,
     Inr \<lparr>er_graph_id = gid, er_status = Completed, er_output = Some [],
       er_output_path = gc_output_path (g_config g),
       er_metrics = \<lparr>em_total_time_ms = total_ms,
         em_stage_times_ms = record_stages elapsed 0 (g_stages g) Map.empty,
         em_memory_peak_bytes = 0, em_cpu_time_ms = 0, em_rows_processed = 0, em_nodes_involved = 1\<rparr>\<rparr>)"
  using assms by (simp add: executor_execute_def get_graph_def update_status_def store_write_def Let_def)

text \<open>
  C2: Executing a known graph, whatever its status, succeeds, leaves it \<open>Completed\<close> and every
  other graph and every idempotency key as they were, and reports one time per distinct stage
  of the graph under the stage's debug name.
\<close>

theorem execute_completes:
  assumes "graphs s gid = Some g"
  shows "\<exists>s' res. executor_execute show_uuid elapsed total_ms gid s = (s', Inr res)
    \<and> is_success res \<and> er_graph_id res = gid
    \<and> graphs s' = (graphs s)(gid \<mapsto> g\<lparr>g_status := Completed\<rparr>)
    \<and> idempotency_keys s' = idempotency_keys s
    \<and> dom (em_stage_times_ms (er_metrics res)) = stage_debug ` set (g_stages g)"
  using assms
  by (simp add: executor_execute_known is_success_def store_write_graph dom_record_stages)

theorem execute_completes_witness:
  "\<exists>s' res. executor_execute (\<lambda>_. []) (\<lambda>_. 7) 28 (GraphId 1)
       (fst (create_graph (with_status Cancelled (create_simple_graph (GraphId 1) None)) graph_store_new))
       = (s', Inr res)
    \<and> map_option g_status (graphs s' (GraphId 1)) = Some Completed
    \<and> dom (em_stage_times_ms (er_metrics res)) = {''Receptor'', ''Wasm'', ''Aggregation'', ''Terminal''}"
proof -
  let ?g = "with_status Cancelled (create_simple_graph (GraphId 1) None)"
  let ?s = "fst (create_graph ?g graph_store_new)"
  have "graphs ?s (GraphId 1) = Some ?g" by (simp add: create_graph_def core_defs)
  from execute_completes [OF this, of "\<lambda>_. []" "\<lambda>_. 7" 28] show ?thesis
    by (auto simp: core_defs)
qed

section \<open>Idempotent submission\<close>

text \<open>Every registered key leads to a stored graph, and graphs are stored under their own id.\<close>

definition store_wf :: "graph_store \<Rightarrow> bool" where
  "store_wf s \<longleftrightarrow> ran (idempotency_keys s) \<subseteq> dom (graphs s) \<and> (\<forall>k g. graphs s k = Some g \<longrightarrow> g_id g = k)"

text \<open>The operations a client can issue, and a run of them.\<close>

datatype store_op = Submit graph "string option" | Execute graph_id | Cancel graph_id

fun store_step :: "store_op \<Rightarrow> graph_store \<Rightarrow> graph_store" where
  "store_step (Submit g key) s = fst (executor_submit g key s)"
| "store_step (Execute gid) s = fst (executor_execute (\<lambda>_. []) (\<lambda>_. 0) 0 gid s)"
| "store_step (Cancel gid) s = fst (executor_cancel (\<lambda>_. []) gid s)"

lemma executor_execute_store:
  "fst (executor_execute show_uuid elapsed total_ms gid s) = store_write gid Completed s"
proof (cases "graphs s gid")
  case None
  then show ?thesis
    by (simp add: executor_execute_def get_graph_def store_write_def update_status_def)
qed (simp add: executor_execute_known)

lemma executor_cancel_store: "fst (executor_cancel show_uuid gid s) = store_write gid Cancelled s"
  by (simp add: executor_cancel_def update_status_store)

lemma executor_submit_cases:
  obtains (known) k gid where "key = Some k" "idempotency_keys s k = Some gid"
      "executor_submit g key s = (s, Inr gid)"
  | (fresh) k where "key = Some k" "idempotency_keys s k = None"
      "executor_submit g key s =
         (s\<lparr>graphs := (graphs s)(g_id g \<mapsto> g), idempotency_keys := (idempotency_keys s)(k \<mapsto> g_id g)\<rparr>,
          Inr (g_id g))"
  | (no_key) "key = None"
      "executor_submit g key s = (s\<lparr>graphs := (graphs s)(g_id g \<mapsto> g)\<rparr>, Inr (g_id g))"
  by (cases key; cases "idempotency_keys s (the key)") (auto simp: executor_submit_def store_op_defs)

lemma store_write_wf: "store_wf s \<Longrightarrow> store_wf (store_write gid status s)"
  by (cases "graphs s gid") (auto simp: store_wf_def store_write_graph store_write_def update_status_def)

lemma executor_submit_wf: "store_wf s \<Longrightarrow> store_wf (fst (executor_submit g key s))"
  by (cases rule: executor_submit_cases [of key s g]) (auto simp: store_wf_def ran_def split: if_splits)

lemma store_step_wf: "store_wf s \<Longrightarrow> store_wf (store_step opn s)"
  by (cases opn) (simp_all add: executor_submit_wf executor_execute_store executor_cancel_store store_write_wf)

lemma store_run_wf: "store_wf s \<Longrightarrow> store_wf (fold store_step opns s)"
  by (induction opns arbitrary: s) (simp_all add: store_step_wf)

lemma store_step_keeps_key:
  "idempotency_keys s k = Some gid \<Longrightarrow> idempotency_keys (store_step opn s) k = Some gid"
proof (cases opn)
  case (Submit g key)
  then show "idempotency_keys s k = Some gid \<Longrightarrow> ?thesis"
    by (cases rule: executor_submit_cases [of key s g]) auto
qed (simp_all add: executor_execute_store executor_cancel_store)

lemma store_run_keeps_key:
  "idempotency_keys s k = Some gid \<Longrightarrow> idempotency_keys (fold store_step opns s) k = Some gid"
  by (induction opns arbitrary: s) (simp_all add: store_step_keeps_key)

lemma executor_submit_registers:
  "executor_submit g (Some k) s = (s', Inr gid) \<Longrightarrow> idempotency_keys s' k = Some gid"
  by (cases rule: executor_submit_cases [of "Some k" s g]) auto

lemma executor_submit_known:
  "idempotency_keys s k = Some gid \<Longrightarrow> executor_submit g (Some k) s = (s, Inr gid)"
  by (simp add: executor_submit_def store_op_defs)

text \<open>
  C1: Once a submission with a key has returned a graph id, every later submission with that key
  returns the same id and changes nothing, whatever operations ran in between; the id is that
  of a stored graph.
\<close>

theorem submit_idempotent:
  assumes "store_wf s" and "executor_submit g (Some k) s = (s1, Inr gid)"
    and "s2 = fold store_step opns s1"
  shows "executor_submit g' (Some k) s2 = (s2, Inr gid) \<and> gid \<in> dom (graphs s2)"
proof -
  have key: "idempotency_keys s2 k = Some gid"
    unfolding assms(3) by (rule store_run_keeps_key [OF executor_submit_registers [OF assms(2)]])
  then have again: "executor_submit g' (Some k) s2 = (s2, Inr gid)" by (rule executor_submit_known)
  have "store_wf s1" using executor_submit_wf [OF assms(1), of g "Some k"] assms(2) by simp
  then have "store_wf s2" unfolding assms(3) by (rule store_run_wf)
  then have "gid \<in> dom (graphs s2)" using key by (auto simp: store_wf_def ran_def)
  with again show ?thesis by simp
qed

theorem submit_idempotent_witness:
  "let g = create_simple_graph (GraphId 1) None; g' = create_simple_graph (GraphId 2) None;
       s1 = fst (executor_submit g (Some ''k'') graph_store_new);
       s2 = fold store_step [Cancel (GraphId 1), Submit g' None] s1
   in executor_submit g' (Some ''k'') s2 = (s2, Inr (GraphId 1)) \<and> GraphId 1 \<in> dom (graphs s2)"
proof -
  let ?g = "create_simple_graph (GraphId 1) None" and ?g' = "create_simple_graph (GraphId 2) None"
  let ?s1 = "fst (executor_submit ?g (Some ''k'') graph_store_new)"
  have wf: "store_wf graph_store_new" by (simp add: store_wf_def graph_store_new_def)
  have sub: "executor_submit ?g (Some ''k'') graph_store_new = (?s1, Inr (GraphId 1))"
    by (simp add: executor_submit_def store_op_defs graph_store_new_def core_defs)
  show ?thesis
    unfolding Let_def
    by (rule submit_idempotent [OF wf sub refl])
qed

section \<open>Submission under interleaving\<close>

text \<open>
  \<open>submit\<close> takes the store's locks three times: to check the key, to insert the graph, to
  register the key. A thread's program counter says which action is next; other threads may act
  between any two. \<open>submit_action\<close> is one lock-protected action.
\<close>

datatype submit_pc = AtCheck | AtCreate | AtRegister | Returned graph_id

record submit_thread =
  th_graph :: graph
  th_key :: "string option"
  th_pc :: submit_pc

fun submit_action :: "submit_thread \<times> graph_store \<Rightarrow> submit_thread \<times> graph_store" where
  "submit_action (t, s) =
     (case th_pc t of
        AtCheck \<Rightarrow>
          (case Option.bind (th_key t) (\<lambda>k. check_idempotency k s) of
             Some existing \<Rightarrow> (t\<lparr>th_pc := Returned existing\<rparr>, s)
           | None \<Rightarrow> (t\<lparr>th_pc := AtCreate\<rparr>, s))
      | AtCreate \<Rightarrow>
          (t\<lparr>th_pc := (case th_key t of None \<Rightarrow> Returned (g_id (th_graph t)) | Some _ \<Rightarrow> AtRegister)\<rparr>,
           fst (create_graph (th_graph t) s))
      | AtRegister \<Rightarrow>
          (t\<lparr>th_pc := Returned (g_id (th_graph t))\<rparr>,
           (case th_key t of None \<Rightarrow> s | Some k \<Rightarrow> register_idempotency k (g_id (th_graph t)) s))
      | Returned _ \<Rightarrow> (t, s))"

text \<open>A thread that is not interrupted does what \<open>executor_submit\<close> does.\<close>

lemma submit_action_alone:
  "(submit_action ^^ 3) (\<lparr>th_graph = g, th_key = key, th_pc = AtCheck\<rparr>, s) =
     (case executor_submit g key s of (s', r) \<Rightarrow>
        (\<lparr>th_graph = g, th_key = key, th_pc = Returned (projr r)\<rparr>, s'))"
  by (cases rule: executor_submit_cases [of key s g]) (auto simp: numeral_3_eq_3 store_op_defs)

type_synonym submit_system = "(nat \<Rightarrow> submit_thread) \<times> graph_store"

definition thread_step :: "nat \<Rightarrow> submit_system \<Rightarrow> submit_system" where
  "thread_step i c = (case submit_action (fst c i, snd c) of (t, s) \<Rightarrow> ((fst c)(i := t), s))"

inductive submit_step :: "submit_system \<Rightarrow> submit_system \<Rightarrow> bool" where
  act: "submit_step c (thread_step i c)"

inductive_cases submit_stepE: "submit_step c c'"

definition submit_init :: "submit_system \<Rightarrow> bool" where
  "submit_init c \<longleftrightarrow> store_wf (snd c) \<and> (\<forall>i. th_pc (fst c i) = AtCheck)"

definition thread_ok :: "graph_store \<Rightarrow> submit_thread \<Rightarrow> bool" where
  "thread_ok s t \<longleftrightarrow>
     (case th_pc t of Returned gid \<Rightarrow> gid \<in> dom (graphs s)
      | AtRegister \<Rightarrow> g_id (th_graph t) \<in> dom (graphs s) | _ \<Rightarrow> True)"

definition submit_inv :: "submit_system \<Rightarrow> bool" where
  "submit_inv c \<longleftrightarrow> store_wf (snd c) \<and> (\<forall>i. thread_ok (snd c) (fst c i))"

text \<open>An action keeps the store well formed, only adds graphs, and leaves its thread ok.\<close>

lemma submit_action_ok:
  assumes "store_wf s" "thread_ok s t" "submit_action (t, s) = (t', s')"
  shows "store_wf s'" and "dom (graphs s) \<subseteq> dom (graphs s')" and "thread_ok s' t'"
  using assms
  by (cases "th_pc t"; cases "th_key t"; cases "idempotency_keys s (the (th_key t))";
      fastforce simp: store_wf_def thread_ok_def store_op_defs ran_def split: if_splits)+

lemma thread_ok_mono: "thread_ok s t \<Longrightarrow> dom (graphs s) \<subseteq> dom (graphs s') \<Longrightarrow> thread_ok s' t"
  by (auto simp: thread_ok_def split: submit_pc.splits)

lemma thread_step_inv: "submit_inv c \<Longrightarrow> submit_inv (thread_step i c)"
  using submit_action_ok [of "snd c" "fst c i"]
  by (fastforce simp: submit_inv_def thread_step_def split: prod.splits intro: thread_ok_mono)

interpretation ss: invariant_system submit_init submit_step submit_inv
proof unfold_locales
  show "submit_inv c" if "submit_init c" for c
    using that by (simp add: submit_init_def submit_inv_def thread_ok_def)
  show "submit_inv c'" if "submit_inv c" "submit_step c c'" for c c'
    using that by (auto elim!: submit_stepE intro: thread_step_inv simp del: split_paired_All)
qed

text \<open>
  C33: However submissions interleave, every id returned to a caller and every registered key
  belongs to a stored graph, and graphs are stored under their own id.
\<close>

theorem submit_interleaved_safe:
  assumes "reach submit_init submit_step c" and "th_pc (fst c i) = Returned gid"
  shows "gid \<in> dom (graphs (snd c)) \<and> store_wf (snd c)"
  using ss.reach_inv [OF assms(1)] assms(2)
  by (fastforce simp: submit_inv_def thread_ok_def split: submit_pc.splits)

text \<open>A schedule is the list of threads in the order in which they act.\<close>

definition run_schedule :: "nat list \<Rightarrow> submit_system \<Rightarrow> submit_system" where
  "run_schedule is c = fold thread_step is c"

lemma reach_schedule:
  "reach submit_init submit_step c \<Longrightarrow> reach submit_init submit_step (run_schedule is c)"
proof (induction "is" arbitrary: c)
  case Nil
  then show ?case by (simp add: run_schedule_def)
next
  case (Cons i "is")
  from Cons.IH [OF reach_step [OF Cons.prems submit_step.act]] show ?case
    by (simp add: run_schedule_def)
qed

theorem submit_interleaved_safe_witness:
  "let c = run_schedule [0, 0, 0] (\<lambda>_. \<lparr>th_graph = create_simple_graph (GraphId 5) None,
         th_key = Some ''k'', th_pc = AtCheck\<rparr>, graph_store_new)
   in GraphId 5 \<in> dom (graphs (snd c)) \<and> store_wf (snd c)"
proof -
  let ?c0 = "(\<lambda>_ :: nat. \<lparr>th_graph = create_simple_graph (GraphId 5) None, th_key = Some ''k'',
    th_pc = AtCheck\<rparr>, graph_store_new)"
  have "reach submit_init submit_step ?c0"
    by (rule reach_init) (simp add: submit_init_def store_wf_def graph_store_new_def)
  then have r: "reach submit_init submit_step (run_schedule [0, 0, 0] ?c0)" by (rule reach_schedule)
  have "th_pc (fst (run_schedule [0, 0, 0] ?c0) 0) = Returned (GraphId 5)"
    by (simp add: run_schedule_def thread_step_def store_op_defs graph_store_new_def core_defs)
  from submit_interleaved_safe [OF r this] show ?thesis by (simp only: Let_def)
qed

text \<open>
  C34: The check and the registration are not one critical section. From any store, two
  concurrent submissions of different graphs under one unregistered key can both insert their
  graph and each return its own id: the key has not prevented a second graph.
\<close>

theorem submit_race:
  assumes "idempotency_keys s k = None" and "g_id g0 \<noteq> g_id g1"
    and "ths 0 = \<lparr>th_graph = g0, th_key = Some k, th_pc = AtCheck\<rparr>"
    and "ths 1 = \<lparr>th_graph = g1, th_key = Some k, th_pc = AtCheck\<rparr>"
    and "c = run_schedule [0, 1, 0, 1, 0, 1] (ths, s)"
  shows "th_pc (fst c 0) = Returned (g_id g0) \<and> th_pc (fst c 1) = Returned (g_id g1)
    \<and> graphs (snd c) (g_id g0) = Some g0 \<and> graphs (snd c) (g_id g1) = Some g1
    \<and> idempotency_keys (snd c) k = Some (g_id g1)"
  using assms by (simp add: run_schedule_def thread_step_def store_op_defs)

theorem submit_race_witness:
  "let g0 = create_simple_graph (GraphId 0) None; g1 = create_simple_graph (GraphId 1) None;
       c = run_schedule [0, 1, 0, 1, 0, 1]
         (\<lambda>i. \<lparr>th_graph = (if i = 0 then g0 else g1), th_key = Some ''k'', th_pc = AtCheck\<rparr>, graph_store_new)
   in th_pc (fst c 0) = Returned (GraphId 0) \<and> th_pc (fst c 1) = Returned (GraphId 1)"
proof -
  let ?g0 = "create_simple_graph (GraphId 0) None" and ?g1 = "create_simple_graph (GraphId 1) None"
  let ?ths = "\<lambda>i :: nat. \<lparr>th_graph = (if i = 0 then ?g0 else ?g1), th_key = Some ''k'', th_pc = AtCheck\<rparr>"
  have ids: "g_id ?g0 = GraphId 0" "g_id ?g1 = GraphId 1" by (simp_all add: core_defs)
  have "idempotency_keys graph_store_new ''k'' = None" "g_id ?g0 \<noteq> g_id ?g1"
    "?ths 0 = \<lparr>th_graph = ?g0, th_key = Some ''k'', th_pc = AtCheck\<rparr>"
    "?ths 1 = \<lparr>th_graph = ?g1, th_key = Some ''k'', th_pc = AtCheck\<rparr>"
    by (simp_all add: ids graph_store_new_def)
  from submit_race [OF this refl] show ?thesis by (simp only: Let_def ids)
qed

section \<open>Execution under interleaving\<close>

text \<open>
  \<open>execute\<close> takes the store's lock three times, to load the graph, to mark it \<open>Running\<close> and to mark it
  \<open>Completed\<close>; in between it walks through the stages of the graph it has loaded. \<open>execute_action\<close>
  is one of these steps.
\<close>

datatype execute_pc =
    LoadGraph
  | MarkRunning graph
  | RunStages graph nat "string \<rightharpoonup> u64"
  | ExecuteAnswered "execution_result result"

fun execute_action ::
  "(uuid \<Rightarrow> string) \<Rightarrow> (nat \<Rightarrow> u64) \<Rightarrow> u64 \<Rightarrow> graph_id \<Rightarrow> execute_pc \<times> graph_store \<Rightarrow> execute_pc \<times> graph_store" where
  "execute_action show_uuid elapsed total_ms gid (pc, s) =
     (case pc of
        LoadGraph \<Rightarrow> ((case get_graph show_uuid gid s of Inl e \<Rightarrow> ExecuteAnswered (Inl e) | Inr g \<Rightarrow> MarkRunning g), s)
      | MarkRunning g \<Rightarrow>
          (case update_status show_uuid gid Running s of
             (s1, Inl e) \<Rightarrow> (ExecuteAnswered (Inl e), s1)
           | (s1, Inr _) \<Rightarrow> (RunStages g 0 Map.empty, s1))
      | RunStages g i tms \<Rightarrow>
          if i < length (g_stages g)
          then (RunStages g (Suc i) (tms(stage_debug (g_stages g ! i) \<mapsto> elapsed i)), s)
          else
            (let res = \<lparr>er_graph_id = gid, er_status = Completed, er_output = Some [],
                   er_output_path = gc_output_path (g_config g),
                   er_metrics = \<lparr>em_total_time_ms = total_ms, em_stage_times_ms = tms,
                     em_memory_peak_bytes = 0, em_cpu_time_ms = 0, em_rows_processed = 0,
                     em_nodes_involved = 1\<rparr>\<rparr>
             in case update_status show_uuid gid Completed s of
                  (s2, Inl e) \<Rightarrow> (ExecuteAnswered (Inl e), s2)
                | (s2, Inr _) \<Rightarrow> (ExecuteAnswered (Inr res), s2))
      | ExecuteAnswered r \<Rightarrow> (ExecuteAnswered r, s))"

declare execute_action.simps [simp del]

text \<open>
  Whatever other callers of the store do between two of these steps, under its write locks: any
  status write, a cancellation, the insertion of any graph, the registration of any key.
\<close>

datatype execute_event =
    OwnStep
  | StatusWrite graph_id graph_status
  | CancelCall graph_id
  | CreateCall graph
  | RegisterCall string graph_id

fun execute_event_step ::
  "(execute_pc \<times> graph_store \<Rightarrow> execute_pc \<times> graph_store) \<Rightarrow> (uuid \<Rightarrow> string) \<Rightarrow> execute_event
    \<Rightarrow> execute_pc \<times> graph_store \<Rightarrow> execute_pc \<times> graph_store" where
  "execute_event_step own show_uuid OwnStep c = own c"
| "execute_event_step own show_uuid (StatusWrite k st) c = (fst c, fst (update_status show_uuid k st (snd c)))"
| "execute_event_step own show_uuid (CancelCall k) c = (fst c, fst (executor_cancel show_uuid k (snd c)))"
| "execute_event_step own show_uuid (CreateCall g) c = (fst c, fst (create_graph g (snd c)))"
| "execute_event_step own show_uuid (RegisterCall key k) c = (fst c, register_idempotency key k (snd c))"

definition execute_events ::
  "(uuid \<Rightarrow> string) \<Rightarrow> (nat \<Rightarrow> u64) \<Rightarrow> u64 \<Rightarrow> graph_id \<Rightarrow> execute_event list \<Rightarrow> execute_pc \<times> graph_store
    \<Rightarrow> execute_pc \<times> graph_store" where
  "execute_events show_uuid elapsed total_ms gid evs c =
     fold (execute_event_step (execute_action show_uuid elapsed total_ms gid) show_uuid) evs c"

definition own_steps :: "execute_event list \<Rightarrow> nat" where
  "own_steps evs = length (filter (\<lambda>e. e = OwnStep) evs)"

lemma own_steps_simps [simp]:
  "own_steps [] = 0" "own_steps (OwnStep # evs) = Suc (own_steps evs)" "e \<noteq> OwnStep \<Longrightarrow> own_steps (e # evs) = own_steps evs"
  by (simp_all add: own_steps_def)

lemma execute_events_append:
  "execute_events show_uuid elapsed total_ms gid (xs @ ys) c
    = execute_events show_uuid elapsed total_ms gid ys (execute_events show_uuid elapsed total_ms gid xs c)"
  by (simp add: execute_events_def)

lemma execute_events_simps [simp]:
  "execute_events show_uuid elapsed total_ms gid [] c = c"
  "execute_events show_uuid elapsed total_ms gid (e # evs) c = execute_events show_uuid elapsed total_ms gid evs
     (execute_event_step (execute_action show_uuid elapsed total_ms gid) show_uuid e c)"
  by (simp_all add: execute_events_def)

lemma other_callers_keep_graph:
  "e \<noteq> OwnStep \<Longrightarrow> fst (execute_event_step own show_uuid e (pc, s)) = pc
    \<and> (graphs s gid \<noteq> None \<longrightarrow> graphs (snd (execute_event_step own show_uuid e (pc, s))) gid \<noteq> None)"
  by (cases e) (auto simp: executor_cancel_def store_op_defs update_status_def split: option.splits)

lemma record_stages_snoc:
  "record_stages elapsed i (xs @ [x]) tms = (record_stages elapsed i xs tms)(stage_debug x \<mapsto> elapsed (i + length xs))"
  by (induction xs arbitrary: i tms) simp_all

text \<open>Where the execution of a loaded graph \<open>g\<close> is after \<open>k\<close> more of its steps.\<close>

definition execute_position :: "(nat \<Rightarrow> u64) \<Rightarrow> graph \<Rightarrow> nat \<Rightarrow> execute_pc" where
  "execute_position elapsed g k =
     (if k = 0 then MarkRunning g
      else RunStages g (k - 1) (record_stages elapsed 0 (take (k - 1) (g_stages g)) Map.empty))"

lemma execute_load:
  "graphs s gid = Some g \<Longrightarrow>
   execute_action show_uuid elapsed total_ms gid (LoadGraph, s) = (execute_position elapsed g 0, s)"
  by (simp add: execute_action.simps execute_position_def get_graph_def)

lemma execute_position_step:
  assumes "k \<le> length (g_stages g)" "graphs s gid \<noteq> None"
  shows "execute_action show_uuid elapsed total_ms gid (execute_position elapsed g k, s)
    = (execute_position elapsed g (Suc k), if k = 0 then store_write gid Running s else s)"
proof (cases k)
  case 0
  then show ?thesis using assms(2) by (auto simp: execute_action.simps execute_position_def update_status_def store_write_def)
next
  case (Suc i)
  then have "i < length (g_stages g)" using assms(1) by simp
  then show ?thesis
    by (simp add: Suc execute_action.simps execute_position_def take_Suc_conv_app_nth record_stages_snoc)
qed

lemma execute_position_reached:
  "graphs s gid \<noteq> None \<Longrightarrow> k + own_steps evs \<le> Suc (length (g_stages g)) \<Longrightarrow>
   \<exists>s'. execute_events show_uuid elapsed total_ms gid evs (execute_position elapsed g k, s)
      = (execute_position elapsed g (k + own_steps evs), s') \<and> graphs s' gid \<noteq> None"
proof (induction evs arbitrary: k s)
  case (Cons e evs)
  show ?case
  proof (cases "e = OwnStep")
    case True
    then have k: "k \<le> length (g_stages g)" using Cons.prems(2) by simp
    let ?s1 = "if k = 0 then store_write gid Running s else s"
    have s1: "graphs ?s1 gid \<noteq> None" using Cons.prems(1) by (simp only: gs.write_known_iff split: if_split) simp
    have "Suc k + own_steps evs \<le> Suc (length (g_stages g))" using Cons.prems(2) True by simp
    from Cons.IH [OF s1 this] show ?thesis using execute_position_step [OF k Cons.prems(1)] True by simp
  next
    case False
    let ?c = "execute_event_step (execute_action show_uuid elapsed total_ms gid) show_uuid e (execute_position elapsed g k, s)"
    have "?c = (execute_position elapsed g k, snd ?c)" "graphs (snd ?c) gid \<noteq> None"
      using other_callers_keep_graph [OF False] Cons.prems(1) by (simp_all add: prod_eq_iff)
    moreover have "k + own_steps evs \<le> Suc (length (g_stages g))" using Cons.prems(2) False by simp
    ultimately show ?thesis using Cons.IH False by (metis execute_events_simps(2) own_steps_simps(3))
  qed
qed simp

text \<open>The last step answers what an undisturbed execution answers.\<close>

lemma execute_last_step:
  assumes "graphs s gid = Some g" "graphs s' gid \<noteq> None"
  shows "execute_action show_uuid elapsed total_ms gid (execute_position elapsed g (Suc (length (g_stages g))), s')
    = (ExecuteAnswered (snd (executor_execute show_uuid elapsed total_ms gid s)), store_write gid Completed s')"
  using assms(2)
  by (auto simp: execute_action.simps execute_position_def executor_execute_known [OF assms(1)] update_status_def store_write_def)

lemma completed_after_write:
  "graphs s gid \<noteq> None \<Longrightarrow> map_option g_status (graphs (store_write gid status s) gid) = Some status"
  using gs.write_known [of s gid _ status] by force

lemma execute_disturbed:
  assumes "graphs s gid = Some g" and "own_steps evs = Suc (length (g_stages g))"
  shows "\<exists>s'. execute_events show_uuid elapsed total_ms gid (OwnStep # evs @ [OwnStep]) (LoadGraph, s)
      = (ExecuteAnswered (snd (executor_execute show_uuid elapsed total_ms gid s)), s')
    \<and> map_option g_status (graphs s' gid) = Some Completed"
proof -
  note load = execute_load [OF assms(1), of show_uuid elapsed total_ms]
  obtain s1 where "execute_events show_uuid elapsed total_ms gid evs (execute_position elapsed g 0, s)
      = (execute_position elapsed g (Suc (length (g_stages g))), s1)" "graphs s1 gid \<noteq> None"
    using execute_position_reached [of s gid 0 evs g show_uuid elapsed total_ms] assms by auto
  then show ?thesis
    using execute_last_step [OF assms(1)] load completed_after_write by (simp add: execute_events_append)
qed

text \<open>An execution that is not disturbed is \<open>executor_execute\<close>.\<close>

lemma execute_stages_alone:
  "graphs s gid \<noteq> None \<Longrightarrow> k + m \<le> length (g_stages g) \<Longrightarrow>
   execute_events show_uuid elapsed total_ms gid (replicate m OwnStep) (execute_position elapsed g (Suc k), s)
     = (execute_position elapsed g (Suc (k + m)), s)"
proof (induction m arbitrary: k)
  case (Suc m)
  then show ?case using Suc.IH [of "Suc k"] execute_position_step [of "Suc k" g s gid] by simp
qed simp

lemma execute_action_alone:
  assumes "graphs s gid = Some g"
  shows "execute_events show_uuid elapsed total_ms gid
      (OwnStep # OwnStep # replicate (length (g_stages g)) OwnStep @ [OwnStep]) (LoadGraph, s)
    = (case executor_execute show_uuid elapsed total_ms gid s of (s', r) \<Rightarrow> (ExecuteAnswered r, s'))"
proof -
  let ?s1 = "store_write gid Running s"
  note load = execute_load [OF assms, of show_uuid elapsed total_ms]
  have k: "graphs ?s1 gid \<noteq> None" using assms gs.write_known_iff by auto
  have "store_write gid Completed ?s1 = store_write gid Completed s"
    using assms by (simp add: store_write_graph)
  then show ?thesis
    using load execute_position_step [of 0 g s gid show_uuid elapsed total_ms]
      execute_stages_alone [OF k, of 0 "length (g_stages g)" g show_uuid elapsed total_ms]
      execute_last_step [OF assms k, of show_uuid elapsed total_ms] assms
    by (simp add: execute_events_append executor_execute_known)
qed

text \<open>
  C39: \<open>execute\<close> ignores a cancellation. Once it has loaded the graph, other callers may act between its steps in
  any order: write any status, insert graphs, register keys and cancel. If one of them cancels the
  graph before \<open>execute\<close> takes its last step, the cancellation is answered with \<open>Ok\<close> and the graph is
  then \<open>Cancelled\<close>; yet with its last step \<open>execute\<close> answers exactly what it answers undisturbed, a result
  with status \<open>Completed\<close>, and the graph is \<open>Completed\<close>.
\<close>

theorem cancel_during_execute_is_lost:
  assumes "graphs s gid = Some g" and "evs = before @ CancelCall gid # after"
    and "own_steps evs = length (g_stages g) + 1"
    and "(pc1, s1) = execute_events show_uuid elapsed total_ms gid (OwnStep # before) (LoadGraph, s)"
    and "(pc2, s2) = execute_events show_uuid elapsed total_ms gid (OwnStep # evs @ [OwnStep]) (LoadGraph, s)"
  shows "snd (executor_cancel show_uuid gid s1) = Inr ()
    \<and> map_option g_status (graphs (fst (executor_cancel show_uuid gid s1)) gid) = Some Cancelled
    \<and> pc2 = ExecuteAnswered (snd (executor_execute show_uuid elapsed total_ms gid s))
    \<and> (\<exists>res. pc2 = ExecuteAnswered (Inr res) \<and> er_status res = Completed)
    \<and> map_option g_status (graphs s2 gid) = Some Completed"
proof -
  have n: "own_steps before \<le> Suc (length (g_stages g))" using assms(2,3) by (simp add: own_steps_def)
  note load = execute_load [OF assms(1), of show_uuid elapsed total_ms]
  have "graphs s1 gid \<noteq> None"
    using execute_position_reached [of s gid 0 before g show_uuid elapsed total_ms] n assms(1,4) load by auto
  then have "snd (executor_cancel show_uuid gid s1) = Inr ()
      \<and> map_option g_status (graphs (fst (executor_cancel show_uuid gid s1)) gid) = Some Cancelled"
    by (auto simp: executor_cancel_def update_status_def)
  moreover have "own_steps evs = Suc (length (g_stages g))" using assms(3) by simp
  from execute_disturbed [OF assms(1) this, of show_uuid elapsed total_ms]
  have "pc2 = ExecuteAnswered (snd (executor_execute show_uuid elapsed total_ms gid s))
      \<and> map_option g_status (graphs s2 gid) = Some Completed"
    using assms(5) by (metis Pair_inject)
  ultimately show ?thesis by (simp add: executor_execute_known [OF assms(1)])
qed

theorem cancel_during_execute_is_lost_witness:
  "let s = fst (create_graph (create_simple_graph (GraphId 1) None) graph_store_new);
       evs = [OwnStep, OwnStep, CancelCall (GraphId 1), OwnStep, OwnStep, StatusWrite (GraphId 1) Pending, OwnStep];
       c = execute_events (\<lambda>_. []) (\<lambda>_. 1) 4 (GraphId 1) (OwnStep # evs @ [OwnStep]) (LoadGraph, s)
   in (\<exists>res. fst c = ExecuteAnswered (Inr res) \<and> er_status res = Completed)
    \<and> map_option g_status (graphs (snd c) (GraphId 1)) = Some Completed"
proof -
  let ?g = "create_simple_graph (GraphId 1) None"
  let ?s = "fst (create_graph ?g graph_store_new)"
  let ?after = "[OwnStep, OwnStep, StatusWrite (GraphId 1) Pending, OwnStep]"
  have s: "graphs ?s (GraphId 1) = Some ?g" by (simp add: create_graph_def core_defs)
  have n: "own_steps ([OwnStep, OwnStep] @ CancelCall (GraphId 1) # ?after) = length (g_stages ?g) + 1"
    by (simp add: own_steps_def core_defs)
  show ?thesis
    using cancel_during_execute_is_lost [OF s refl n prod.collapse prod.collapse, of "\<lambda>_. []" "\<lambda>_. 1" 4]
    unfolding Let_def append_Cons append_Nil by (elim conjE) (intro conjI; assumption)
qed

end
