(* ===== verification/WasmRuntime.thy ===== *)
theory WasmRuntime
  imports Prelude CoreTypes
begin

text \<open>
  The Wasm runtime (\<open>kineplex-core/src/wasm.rs\<close>): configuration, the tenants' resource manager,
  the module cache and execution. Wasmtime is external: a compiled module is a value of type
  \<open>'m\<close>, and its entry points are parameters, \<open>engine_new\<close> (with the cache configuration it may
  load), \<open>compile\<close> (\<open>Module::new\<close>) and \<open>set_fuel\<close>, each of which may fail with a message. Of these
  nothing is assumed. Proved: the first bytes that compile for a module identifier stay in the
  cache, tenants that check before they start stay within their limit, whatever the order of
  starts and ends, and the check and the start are separate steps that can be raced.
\<close>

type_synonym bytes = "8 word list"

record wasm_config =
  wc_max_memory_mb :: u64
  wc_max_fuel :: u64
  wc_enable_simd :: bool
  wc_enable_cache :: bool

definition wasm_config_default :: wasm_config where
  "wasm_config_default = \<lparr>wc_max_memory_mb = 512, wc_max_fuel = 1000000, wc_enable_simd = True, wc_enable_cache = True\<rparr>"

section \<open>Tenant resources\<close>

record tenant_quota =
  tq_tenant_id :: string
  tq_max_concurrent :: u32
  tq_max_memory_mb :: u64
  tq_max_fuel :: u64
  tq_rate_limit_per_minute :: u32

record tenant_resource_manager =
  rm_quotas :: "string \<rightharpoonup> tenant_quota"
  rm_active_executions :: "string \<rightharpoonup> u32"

definition resource_manager_new :: tenant_resource_manager where
  "resource_manager_new = \<lparr>rm_quotas = Map.empty, rm_active_executions = Map.empty\<rparr>"

definition register_tenant :: "tenant_quota \<Rightarrow> tenant_resource_manager \<Rightarrow> tenant_resource_manager" where
  "register_tenant q m = m\<lparr>rm_quotas := (rm_quotas m)(tq_tenant_id q \<mapsto> q)\<rparr>"

definition active_count :: "tenant_resource_manager \<Rightarrow> string \<Rightarrow> u32" where
  "active_count m t = (case rm_active_executions m t of None \<Rightarrow> 0 | Some n \<Rightarrow> n)"

definition can_execute :: "string \<Rightarrow> tenant_resource_manager \<Rightarrow> bool result" where
  "can_execute t m =
     (case rm_quotas m t of
        None \<Rightarrow> Inl (AuthorizationFailed (''Tenant '' @ t @ '' not found''))
      | Some q \<Rightarrow> Inr (\<not> tq_max_concurrent q \<le> active_count m t))"

text \<open>The count may overflow (\<open>None\<close> is the panic).\<close>

definition record_execution_start :: "bool \<Rightarrow> string \<Rightarrow> tenant_resource_manager \<Rightarrow> tenant_resource_manager option" where
  "record_execution_start checks t m =
     map_option (\<lambda>n. m\<lparr>rm_active_executions := (rm_active_executions m)(t \<mapsto> n)\<rparr>) (add_chk checks (active_count m t) 1)"

definition record_execution_end :: "string \<Rightarrow> tenant_resource_manager \<Rightarrow> tenant_resource_manager" where
  "record_execution_end t m =
     (case rm_active_executions m t of
        None \<Rightarrow> m
      | Some n \<Rightarrow> (if 0 < n then m\<lparr>rm_active_executions := (rm_active_executions m)(t \<mapsto> n - 1)\<rparr> else m))"

definition get_quota :: "string \<Rightarrow> tenant_resource_manager \<Rightarrow> tenant_quota option" where
  "get_quota t m = rm_quotas m t"

section \<open>The runtime\<close>

record ('e, 'm) wasm_runtime =
  wr_engine :: 'e
  wr_config :: wasm_config
  wr_module_cache :: "string \<rightharpoonup> 'm"

definition runtime_new ::
  "(string + unit) \<Rightarrow> (bool \<Rightarrow> string + 'e) \<Rightarrow> wasm_config \<Rightarrow> ('e, 'm) wasm_runtime result" where
  "runtime_new load_cache engine_new cfg =
     (case (if wc_enable_cache cfg then load_cache else Inr ()) of
        Inl e \<Rightarrow> Inl (WasmError e)
      | Inr _ \<Rightarrow> (case engine_new (wc_enable_simd cfg) of
          Inl e \<Rightarrow> Inl (WasmError e)
        | Inr eng \<Rightarrow> Inr \<lparr>wr_engine = eng, wr_config = cfg, wr_module_cache = Map.empty\<rparr>))"

definition compile_module ::
  "('e \<Rightarrow> bytes \<Rightarrow> string + 'm) \<Rightarrow> string \<Rightarrow> bytes \<Rightarrow> ('e, 'm) wasm_runtime \<Rightarrow> ('e, 'm) wasm_runtime \<times> unit result" where
  "compile_module compile mid code r =
     (case wr_module_cache r mid of
        Some _ \<Rightarrow> (r, Inr ())
      | None \<Rightarrow> (case compile (wr_engine r) code of
          Inl e \<Rightarrow> (r, Inl (WasmError e))
        | Inr m \<Rightarrow> (r\<lparr>wr_module_cache := (wr_module_cache r)(mid \<mapsto> m)\<rparr>, Inr ())))"

definition wasm_execute ::
  "(u64 \<Rightarrow> string + unit) \<Rightarrow> string \<Rightarrow> bytes \<Rightarrow> ('e, 'm) wasm_runtime \<Rightarrow> bytes result" where
  "wasm_execute set_fuel mid input r =
     (case wr_module_cache r mid of
        None \<Rightarrow> Inl (WasmError (''Module '' @ mid @ '' not found''))
      | Some _ \<Rightarrow> (case set_fuel (wc_max_fuel (wr_config r)) of
          Inl e \<Rightarrow> Inl (WasmError e)
        | Inr _ \<Rightarrow> Inr input))"

definition cache_size :: "('e, 'm) wasm_runtime \<Rightarrow> nat" where
  "cache_size r = card (dom (wr_module_cache r))"

record wasm_execution_context =
  wx_tenant_id :: string
  wx_execution_id :: string
  wx_input :: bytes
  wx_config :: wasm_config

definition execution_context_new :: "string \<Rightarrow> string \<Rightarrow> bytes \<Rightarrow> wasm_config \<Rightarrow> wasm_execution_context" where
  "execution_context_new eid t input cfg =
     \<lparr>wx_tenant_id = t, wx_execution_id = eid, wx_input = input, wx_config = cfg\<rparr>"

section \<open>The module cache\<close>

definition compile_all ::
  "('e \<Rightarrow> bytes \<Rightarrow> string + 'm) \<Rightarrow> (string \<times> bytes) list \<Rightarrow> ('e, 'm) wasm_runtime \<Rightarrow> ('e, 'm) wasm_runtime" where
  "compile_all compile reqs r = fold (\<lambda>(mid, code) r. fst (compile_module compile mid code r)) reqs r"

lemma compile_module_frame [simp]:
  "wr_engine (fst (compile_module compile mid code r)) = wr_engine r"
  "wr_config (fst (compile_module compile mid code r)) = wr_config r"
  by (auto simp: compile_module_def split: option.splits sum.splits)

lemma compile_all_Nil [simp]: "compile_all compile [] r = r"
  by (simp add: compile_all_def)

lemma compile_all_Cons [simp]:
  "compile_all compile ((mid, code) # reqs) r = compile_all compile reqs (fst (compile_module compile mid code r))"
  by (simp add: compile_all_def)

lemma compile_all_known: "wr_module_cache r mid = Some m \<Longrightarrow> wr_module_cache (compile_all compile reqs r) mid = Some m"
proof (induction reqs arbitrary: r)
  case (Cons req reqs)
  obtain mid' code where req: "req = (mid', code)" by (cases req)
  have "wr_module_cache (fst (compile_module compile mid' code r)) mid = Some m"
    using Cons.prems by (auto simp: compile_module_def split: option.splits sum.splits)
  then show ?case using Cons.IH by (simp add: req)
qed simp

text \<open>
  After any sequence of compilations the module cached under an identifier is the one the
  first bytes that compiled for it gave, and none when no bytes compiled; later bytes for the
  same identifier are answered with \<open>Ok\<close> and ignored. Execution then returns its input.
\<close>

theorem module_cache_first_wins:
  assumes "wr_module_cache r mid = None"
  shows "wr_module_cache (compile_all compile reqs r) mid =
      (case filter (\<lambda>c. \<exists>m. compile (wr_engine r) c = Inr m) (map snd (filter (\<lambda>req. fst req = mid) reqs)) of
         [] \<Rightarrow> None | c # _ \<Rightarrow> Some (projr (compile (wr_engine r) c)))
    \<and> (\<forall>code. wr_module_cache (compile_all compile reqs r) mid \<noteq> None \<longrightarrow>
         compile_module compile mid code (compile_all compile reqs r) = (compile_all compile reqs r, Inr ()))"
proof -
  have "wr_module_cache r mid = None \<Longrightarrow> wr_module_cache (compile_all compile reqs r) mid =
      (case filter (\<lambda>c. \<exists>m. compile (wr_engine r) c = Inr m) (map snd (filter (\<lambda>req. fst req = mid) reqs)) of
         [] \<Rightarrow> None | c # _ \<Rightarrow> Some (projr (compile (wr_engine r) c)))"
  proof (induction reqs arbitrary: r)
    case (Cons req reqs)
    obtain mid' code where req: "req = (mid', code)" by (cases req)
    let ?r = "fst (compile_module compile mid' code r)"
    show ?case
    proof (cases "mid' = mid \<and> (\<exists>m. compile (wr_engine r) code = Inr m)")
      case True
      then obtain m where m: "mid' = mid" "compile (wr_engine r) code = Inr m" by blast
      then have "wr_module_cache ?r mid = Some m" using Cons.prems by (simp add: compile_module_def)
      with m show ?thesis by (simp add: req compile_all_known)
    next
      case False
      then have "wr_module_cache ?r mid = None"
        using Cons.prems by (auto simp: compile_module_def split: option.splits sum.splits)
      from Cons.IH [OF this, unfolded compile_module_frame] False show ?thesis by (auto simp: req)
    qed
  qed simp
  with assms show ?thesis by (auto simp: compile_module_def)
qed

theorem module_cache_first_wins_witness:
  "let compile = (\<lambda>_ c. if c = [] then Inl ''empty'' else Inr (length c));
       r = \<lparr>wr_engine = (), wr_config = wasm_config_default, wr_module_cache = Map.empty\<rparr>
   in wr_module_cache (compile_all compile [(''f'', []), (''f'', [1]), (''f'', [2, 3])] r) ''f'' = Some 1"
proof -
  let ?compile = "\<lambda>_ c. if c = [] then Inl ''empty'' else Inr (length c)"
  let ?r = "\<lparr>wr_engine = (), wr_config = wasm_config_default, wr_module_cache = Map.empty\<rparr>"
  have "wr_module_cache ?r ''f'' = None" by simp
  from module_cache_first_wins [OF this, of ?compile "[(''f'', []), (''f'', [1]), (''f'', [2, 3])]"]
  show ?thesis by (simp add: Let_def)
qed

section \<open>The tenants' limit\<close>

definition guarded_start :: "string \<Rightarrow> tenant_resource_manager \<Rightarrow> tenant_resource_manager option" where
  "guarded_start t m = (if can_execute t m = Inr True then record_execution_start True t m else None)"

lemma guarded_start_Some:
  assumes "guarded_start t m = Some m'"
  shows "\<exists>q. rm_quotas m t = Some q \<and> active_count m t < tq_max_concurrent q
    \<and> m' = m\<lparr>rm_active_executions := (rm_active_executions m)(t \<mapsto> active_count m t + 1)\<rparr>
    \<and> unat (active_count m t + 1) = unat (active_count m t) + 1"
proof -
  obtain q where q: "rm_quotas m t = Some q" "active_count m t < tq_max_concurrent q"
    using assms by (auto simp: guarded_start_def can_execute_def split: if_splits option.splits)
  have "unat (active_count m t) + unat (1 :: u32) < 2 ^ LENGTH(32)"
    using unat_inc_below(1) [OF q(2)] unat_below [of "active_count m t + 1"] by simp
  note add_chk_no_overflow(1) [OF this, of True]
  with q assms unat_inc_below(1) [OF q(2)] show ?thesis
    by (simp add: guarded_start_def record_execution_start_def split: if_splits)
qed

interpretation tg: quota_gate guarded_start "\<lambda>m t. unat (active_count m t)"
  "\<lambda>m t. map_option (\<lambda>q. unat (tq_max_concurrent q)) (rm_quotas m t)"
  by unfold_locales (auto dest!: guarded_start_Some simp: active_count_def word_less_nat_alt)

text \<open>Starts and ends in any order, each start behind its check.\<close>

datatype tenant_op = StartOp string | EndOp string

fun tenant_step :: "tenant_op \<Rightarrow> tenant_resource_manager \<Rightarrow> tenant_resource_manager" where
  "tenant_step (StartOp t) m = (case guarded_start t m of None \<Rightarrow> m | Some m' \<Rightarrow> m')"
| "tenant_step (EndOp t) m = record_execution_end t m"

definition within_limits :: "tenant_resource_manager \<Rightarrow> bool" where
  "within_limits m \<longleftrightarrow> (\<forall>t q. rm_quotas m t = Some q \<longrightarrow> active_count m t \<le> tq_max_concurrent q)"

lemma end_count:
  "active_count (record_execution_end t m) t' = (if t' = t \<and> 0 < active_count m t then active_count m t - 1 else active_count m t')"
  by (auto simp: record_execution_end_def active_count_def split: option.splits)

lemma end_quotas [simp]: "rm_quotas (record_execution_end t m) = rm_quotas m"
  by (simp add: record_execution_end_def split: option.splits)

lemma tenant_step_quotas [simp]: "rm_quotas (tenant_step op m) = rm_quotas m"
  by (cases op) (auto split: option.splits dest!: guarded_start_Some)

lemma tenant_step_within: "within_limits m \<Longrightarrow> within_limits (tenant_step op m)"
proof (cases op)
  case (StartOp t)
  assume lim: "within_limits m"
  show ?thesis
  proof (cases "guarded_start t m")
    case None
    then show ?thesis using lim StartOp by simp
  next
    case (Some m')
    then obtain q where q: "rm_quotas m t = Some q" "active_count m t < tq_max_concurrent q"
        "m' = m\<lparr>rm_active_executions := (rm_active_executions m)(t \<mapsto> active_count m t + 1)\<rparr>"
      using guarded_start_Some by blast
    then show ?thesis
      using lim Some StartOp unat_inc_below(2) [OF q(2)] by (auto simp: within_limits_def active_count_def)
  qed
next
  case (EndOp t)
  assume lim: "within_limits m"
  have "n - 1 \<le> k" if "n \<le> k" "0 < n" for n k :: u32
  proof -
    have "unat (n - 1) = unat n - 1" using that(2) by (intro unat_minus_one) simp
    then show ?thesis using that(1) by (simp add: word_le_nat_alt)
  qed
  then show ?thesis using lim EndOp by (auto simp: within_limits_def end_count)
qed

lemma tenant_steps_within: "within_limits m \<Longrightarrow> within_limits (fold tenant_step ops m)"
  by (induction ops arbitrary: m) (auto simp: tenant_step_within)

lemma tenant_steps_quotas [simp]: "rm_quotas (fold tenant_step ops m) = rm_quotas m"
  by (induction ops arbitrary: m) simp_all

text \<open>
  A caller that checks before every start keeps every registered tenant within its limit,
  over any sequence of starts and ends, also surplus ends; and of any further requests of a
  tenant no more are admitted than its limit has room for.
\<close>

theorem tenant_limit_respected:
  assumes "within_limits m" and "rm_quotas m t = Some q"
    and "tg.admit_all ts (fold tenant_step ops m) = (adm, m')"
  shows "active_count (fold tenant_step ops m) t \<le> tq_max_concurrent q
    \<and> unat (active_count (fold tenant_step ops m) t) + count_list adm t \<le> unat (tq_max_concurrent q)"
proof -
  have "active_count (fold tenant_step ops m) t \<le> tq_max_concurrent q"
    using tenant_steps_within [OF assms(1)] assms(2) by (simp add: within_limits_def)
  then show ?thesis
    using tg.admitted_bound [OF assms(3), of t] assms(2) by (simp add: word_le_nat_alt)
qed

theorem tenant_limit_respected_witness:
  "let m = register_tenant \<lparr>tq_tenant_id = ''t'', tq_max_concurrent = 1, tq_max_memory_mb = 1, tq_max_fuel = 1,
         tq_rate_limit_per_minute = 1\<rparr> resource_manager_new
   in active_count (fold tenant_step [EndOp ''t'', StartOp ''t'', StartOp ''t''] m) ''t'' \<le> 1"
proof -
  let ?q = "\<lparr>tq_tenant_id = ''t'', tq_max_concurrent = 1, tq_max_memory_mb = 1, tq_max_fuel = 1, tq_rate_limit_per_minute = 1\<rparr>"
  let ?m = "register_tenant ?q resource_manager_new"
  have m: "within_limits ?m" "rm_quotas ?m ''t'' = Some ?q"
    by (simp_all add: within_limits_def register_tenant_def resource_manager_new_def active_count_def)
  have "tg.admit_all [] (fold tenant_step [EndOp ''t'', StartOp ''t'', StartOp ''t''] ?m) =
      ([], fold tenant_step [EndOp ''t'', StartOp ''t'', StartOp ''t''] ?m)"
    by (rule tg.admit_all.simps(1))
  from tenant_limit_respected [OF m this] show ?thesis by (simp only: Let_def tenant_quota.simps)
qed

text \<open>
  The check and the start take the lock separately: two callers that both check before either
  starts both pass with one slot left, and the limit is exceeded.
\<close>

lemma check_then_start_race:
  assumes "rm_quotas m t = Some q" "unat (active_count m t) + 1 = unat (tq_max_concurrent q)"
    "unat (tq_max_concurrent q) + 1 < 2 ^ 32"
  shows "can_execute t m = Inr True \<and> (\<exists>m1 m2. record_execution_start True t m = Some m1
    \<and> record_execution_start True t m1 = Some m2 \<and> tq_max_concurrent q < active_count m2 t)"
proof -
  let ?n = "active_count m t"
  have 1: "unat ?n + unat (1 :: u32) < 2 ^ LENGTH(32)" using assms(2,3) by simp
  note s1 = add_chk_no_overflow(1) [OF 1, of True] add_chk_no_overflow(2) [OF 1]
  have 2: "unat (?n + 1) + unat (1 :: u32) < 2 ^ LENGTH(32)" using s1(2) assms(2,3) by simp
  note s2 = add_chk_no_overflow(1) [OF 2, of True] add_chk_no_overflow(2) [OF 2]
  have "can_execute t m = Inr True" using assms(1,2) by (simp add: can_execute_def word_le_nat_alt)
  moreover have "unat (tq_max_concurrent q) < unat (?n + 1 + 1)" using s1(2) s2(2) assms(2) by simp
  ultimately show ?thesis
    using s1(1) s2(1) by (simp add: record_execution_start_def active_count_def word_less_nat_alt del: unat_1)
qed

end
