(* ===== verification/DataPlane.thy ===== *)
theory DataPlane
  imports Prelude CoreTypes
begin

text \<open>
  The data passed between stages (\<open>kineplex-core/src/data.rs\<close>). Record batches, schemas, the IPC
  and Parquet codecs and the file system are external: batches and schemas are values of type
  \<open>'b\<close> and \<open>'s\<close>, and the calls the code makes are the fields of \<open>arrow_lib\<close>, a parameter of the
  definitions. An external error is its message. Proved: a chain of stages that succeeds changes
  neither batches nor schema and leaves the metadata of the last stage, the IPC round trip loses
  exactly the metadata, and one bad batch makes reading fail.
\<close>

type_synonym bytes = "8 word list"

record ('b, 's, 'w, 'f, 'p) arrow_lib =
  schema_of :: "'b \<Rightarrow> 's"
  num_rows :: "'b \<Rightarrow> usize"
  ipc_writer :: "'s \<Rightarrow> string + 'w"
  ipc_write :: "'w \<Rightarrow> 'b \<Rightarrow> string + 'w"
  ipc_finish :: "'w \<Rightarrow> string + bytes"
  ipc_reader :: "bytes \<Rightarrow> string + ('s \<times> (string + 'b) list)"
  create_dir_all :: "string \<Rightarrow> string + unit"
  create_file :: "string \<Rightarrow> string + 'f"
  pq_writer :: "'f \<Rightarrow> 's \<Rightarrow> string + 'p"
  pq_write :: "'p \<Rightarrow> 'b \<Rightarrow> string + 'p"
  pq_close :: "'p \<Rightarrow> string + unit"

record ('b, 's) arrow_data =
  ad_batches :: "'b list"
  ad_schema :: 's
  ad_metadata :: "string \<rightharpoonup> string"

definition arrow_data_new :: "('b, 's, 'w, 'f, 'p) arrow_lib \<Rightarrow> 'b \<Rightarrow> ('b, 's) arrow_data" where
  "arrow_data_new lib batch = \<lparr>ad_batches = [batch], ad_schema = schema_of lib batch, ad_metadata = Map.empty\<rparr>"

definition from_batches :: "'b list \<Rightarrow> 's \<Rightarrow> ('b, 's) arrow_data" where
  "from_batches batches schema = \<lparr>ad_batches = batches, ad_schema = schema, ad_metadata = Map.empty\<rparr>"

text \<open>The \<open>?\<close> operator, after \<open>map_err\<close>.\<close>

definition try_or :: "(string \<Rightarrow> core_error) \<Rightarrow> string + 'a \<Rightarrow> ('a \<Rightarrow> 'c result) \<Rightarrow> 'c result" where
  "try_or err r f = (case r of Inl e \<Rightarrow> Inl (err e) | Inr x \<Rightarrow> f x)"

fun write_batches :: "(string \<Rightarrow> core_error) \<Rightarrow> ('w \<Rightarrow> 'b \<Rightarrow> string + 'w) \<Rightarrow> 'w \<Rightarrow> 'b list \<Rightarrow> 'w result" where
  "write_batches err wr w [] = Inr w"
| "write_batches err wr w (b # bs) = try_or err (wr w b) (\<lambda>w'. write_batches err wr w' bs)"

definition to_ipc :: "('b, 's, 'w, 'f, 'p) arrow_lib \<Rightarrow> ('b, 's) arrow_data \<Rightarrow> bytes result" where
  "to_ipc lib d =
     try_or ArrowError (ipc_writer lib (ad_schema d)) (\<lambda>w.
       case write_batches ArrowError (ipc_write lib) w (ad_batches d) of
         Inl e \<Rightarrow> Inl e
       | Inr w' \<Rightarrow> try_or ArrowError (ipc_finish lib w') Inr)"

fun read_batches :: "(string + 'b) list \<Rightarrow> 'b list result" where
  "read_batches [] = Inr []"
| "read_batches (r # rs) = try_or ArrowError r (\<lambda>b. map_sum id (Cons b) (read_batches rs))"

definition from_ipc :: "('b, 's, 'w, 'f, 'p) arrow_lib \<Rightarrow> bytes \<Rightarrow> ('b, 's) arrow_data result" where
  "from_ipc lib code =
     try_or ArrowError (ipc_reader lib code) (\<lambda>(schema, rs).
       map_sum id (\<lambda>batches. from_batches batches schema) (read_batches rs))"

definition total_rows :: "('b, 's, 'w, 'f, 'p) arrow_lib \<Rightarrow> bool \<Rightarrow> ('b, 's) arrow_data \<Rightarrow> usize option" where
  "total_rows lib checks d = sum_u64 checks 0 (map (num_rows lib) (ad_batches d))"

definition add_metadata :: "string \<Rightarrow> string \<Rightarrow> ('b, 's) arrow_data \<Rightarrow> ('b, 's) arrow_data" where
  "add_metadata k v d = d\<lparr>ad_metadata := (ad_metadata d)(k \<mapsto> v)\<rparr>"

section \<open>Parquet output\<close>

text \<open>
  \<open>Path::join\<close> of a relative file name, and \<open>Path::parent\<close> of the result: the components before the
  file name, without trailing separators and without a trailing \<open>.\<close> component that is not the first one.
\<close>

definition path_join :: "string \<Rightarrow> string \<Rightarrow> string" where
  "path_join dir file = (if dir = [] \<or> last dir = CHR ''/'' then dir @ file else dir @ ''/'' @ file)"

fun trim_back :: "string \<Rightarrow> string" where
  "trim_back [] = []"
| "trim_back (c # cs) =
     (if c = CHR ''/'' \<or> (c = CHR ''.'' \<and> cs \<noteq> [] \<and> hd cs = CHR ''/'') then trim_back cs else c # cs)"

definition path_parent :: "string \<Rightarrow> string" where
  "path_parent dir = (let d = rev (trim_back (rev dir)) in if d = [] \<and> dir \<noteq> [] then ''/'' else d)"

lemma path_parent_examples:
  "map path_parent [''out/a'', ''out/a//'', ''a/.'', ''.'', ''./.'', ''/'', ''/.'', [], ''..'']
    = [''out/a'', ''out/a'', ''a'', ''.'', ''.'', ''/'', ''/'', [], ''..'']"
  by code_simp

definition parquet_write ::
  "('b, 's, 'w, 'f, 'p) arrow_lib \<Rightarrow> string \<Rightarrow> ('b, 's) arrow_data \<Rightarrow> u32 \<Rightarrow> string result" where
  "parquet_write lib output_path d partition_id =
     (let path = path_join output_path (''part-'' @ show_word partition_id @ ''.parquet'') in
      try_or IoError (create_dir_all lib (path_parent output_path)) (\<lambda>_.
      try_or IoError (create_file lib path) (\<lambda>f.
      try_or ParquetError (pq_writer lib f (ad_schema d)) (\<lambda>w.
      case write_batches ParquetError (pq_write lib) w (ad_batches d) of
        Inl e \<Rightarrow> Inl e
      | Inr w' \<Rightarrow> try_or ParquetError (pq_close lib w') (\<lambda>_. Inr path)))))"

section \<open>Stages\<close>

datatype node_id = NodeId string

datatype stage_executor =
    ReceptorStage
  | WasmStage bytes u64 u64
  | AggregationStage
  | TerminalStage string

fun executor_name :: "stage_executor \<Rightarrow> string" where
  "executor_name ReceptorStage = ''receptor''"
| "executor_name (WasmStage _ _ _) = ''wasm''"
| "executor_name AggregationStage = ''aggregation''"
| "executor_name (TerminalStage _) = ''terminal''"

text \<open>\<open>now\<close> is the clock rendered by \<open>to_rfc3339\<close>.\<close>

fun stage_execute ::
  "('b, 's, 'w, 'f, 'p) arrow_lib \<Rightarrow> string \<Rightarrow> node_id \<Rightarrow> stage_executor \<Rightarrow> ('b, 's) arrow_data \<Rightarrow> ('b, 's) arrow_data result" where
  "stage_execute lib now (NodeId n) ReceptorStage d =
     Inr (add_metadata ''processed_at'' now (add_metadata ''stage'' ''receptor'' d))"
| "stage_execute lib now (NodeId n) (WasmStage wasm mem fuel) d =
     Inr (add_metadata ''wasm_max_fuel'' (show_word fuel)
       (add_metadata ''wasm_max_memory_mb'' (show_word mem)
       (add_metadata ''wasm_module_bytes'' (show_nat (length wasm))
       (add_metadata ''executed_by'' n (add_metadata ''stage'' ''wasm'' d)))))"
| "stage_execute lib now (NodeId n) AggregationStage d =
     Inr (add_metadata ''aggregated_at'' now (add_metadata ''stage'' ''aggregation'' d))"
| "stage_execute lib now (NodeId n) (TerminalStage out) d =
     (let d' = add_metadata ''completed_at'' now (add_metadata ''output_path'' out
        (add_metadata ''executed_by'' n (add_metadata ''stage'' ''terminal'' d)))
      in map_sum id (\<lambda>path. add_metadata ''parquet_path'' path d') (parquet_write lib out d' 0))"

text \<open>A chain of stages, each on its node and at its time.\<close>

fun run_stages ::
  "('b, 's, 'w, 'f, 'p) arrow_lib \<Rightarrow> (string \<times> node_id \<times> stage_executor) list \<Rightarrow> ('b, 's) arrow_data \<Rightarrow> ('b, 's) arrow_data result" where
  "run_stages lib [] d = Inr d"
| "run_stages lib ((now, n, s) # rest) d =
     (case stage_execute lib now n s d of Inl e \<Rightarrow> Inl e | Inr d' \<Rightarrow> run_stages lib rest d')"

definition reserved_keys :: "string set" where
  "reserved_keys = {''stage'', ''processed_at'', ''executed_by'', ''wasm_module_bytes'', ''wasm_max_memory_mb'',
     ''wasm_max_fuel'', ''aggregated_at'', ''output_path'', ''completed_at'', ''parquet_path''}"

lemma add_metadata_frame [simp]:
  "ad_batches (add_metadata k v d) = ad_batches d" "ad_schema (add_metadata k v d) = ad_schema d"
  "ad_metadata (add_metadata k v d) = (ad_metadata d)(k \<mapsto> v)"
  by (simp_all add: add_metadata_def)

lemma stage_execute_frame:
  assumes "stage_execute lib now n s d = Inr d'"
  shows "ad_batches d' = ad_batches d \<and> ad_schema d' = ad_schema d \<and> ad_metadata d' ''stage'' = Some (executor_name s)
    \<and> (\<forall>k. k \<notin> reserved_keys \<longrightarrow> ad_metadata d' k = ad_metadata d k)"
proof -
  obtain nm where n: "n = NodeId nm" by (cases n)
  show ?thesis
  proof (cases s)
    case (TerminalStage out)
    let ?d' = "add_metadata ''completed_at'' now (add_metadata ''output_path'' out
        (add_metadata ''executed_by'' nm (add_metadata ''stage'' ''terminal'' d)))"
    obtain path where "d' = add_metadata ''parquet_path'' path ?d'"
      using assms by (cases "parquet_write lib out ?d' 0") (auto simp: n TerminalStage Let_def)
    then show ?thesis by (simp add: TerminalStage reserved_keys_def)
  qed (use assms in \<open>auto simp: n reserved_keys_def\<close>)
qed

text \<open>
  A concrete library for the witnesses: batches and schemas are bytes,
  the top two bits of a batch name its schema, a file is the schema
  followed by the batches, and the disk takes everything.
\<close>

definition byte_lib :: "(8 word, 8 word, bytes, string, unit) arrow_lib" where
  "byte_lib =
     \<lparr>schema_of = drop_bit 6, num_rows = (\<lambda>_. 1),
      ipc_writer = (\<lambda>s. Inr [s]), ipc_write = (\<lambda>w b. Inr (w @ [b])), ipc_finish = Inr,
      ipc_reader = (\<lambda>code. case code of [] \<Rightarrow> Inl ''empty'' | s # bs \<Rightarrow> Inr (s, map Inr bs)),
      create_dir_all = (\<lambda>_. Inr ()), create_file = Inr,
      pq_writer = (\<lambda>_ _. Inr ()), pq_write = (\<lambda>_ _. Inr ()), pq_close = (\<lambda>_. Inr ())\<rparr>"

text \<open>
  A chain of stages that succeeds passes the data on unchanged: the same batches and
  schema, hence the same number of rows; the metadata names the last stage and every key the
  stages do not use is kept. A chain that does not end in a file system or Parquet error
  succeeds: only the terminal stage can fail.
\<close>

theorem stages_preserve_data:
  "(\<forall>d'. run_stages lib stages d = Inr d' \<longrightarrow>
       ad_batches d' = ad_batches d \<and> ad_schema d' = ad_schema d
       \<and> total_rows lib checks d' = total_rows lib checks d
       \<and> (stages \<noteq> [] \<longrightarrow> ad_metadata d' ''stage'' = Some (executor_name (snd (snd (last stages)))))
       \<and> (\<forall>k. k \<notin> reserved_keys \<longrightarrow> ad_metadata d' k = ad_metadata d k))
   \<and> ((\<forall>s \<in> set stages. \<forall>out. snd (snd s) \<noteq> TerminalStage out) \<longrightarrow> (\<exists>d'. run_stages lib stages d = Inr d'))"
proof (induction stages arbitrary: d)
  case Nil
  then show ?case by simp
next
  case (Cons st rest)
  obtain now n s where st: "st = (now, n, s)" by (cases st)
  show ?case
  proof (cases "stage_execute lib now n s d")
    case (Inl e)
    have "\<exists>out. s = TerminalStage out" using Inl by (cases n; cases s) (auto simp: Let_def)
    then show ?thesis using Inl by (auto simp: st)
  next
    case (Inr d1)
    note f = stage_execute_frame [OF Inr] and ih = Cons.IH [of d1]
    have run: "run_stages lib (st # rest) d = run_stages lib rest d1" by (simp add: st Inr)
    have rows: "total_rows lib checks d1 = total_rows lib checks d" using f by (simp add: total_rows_def)
    show ?thesis
      unfolding run
    proof (intro conjI allI impI)
      fix d' assume d': "run_stages lib rest d1 = Inr d'"
      note ih' = conjunct1 [OF ih, rule_format, OF d']
      show "ad_batches d' = ad_batches d" "ad_schema d' = ad_schema d" using ih' f by simp_all
      show "total_rows lib checks d' = total_rows lib checks d" using ih' rows by simp
      show "ad_metadata d' ''stage'' = Some (executor_name (snd (snd (last (st # rest)))))"
        using d' ih' f by (cases "rest = []") (simp_all add: st)
      show "ad_metadata d' k = ad_metadata d k" if "k \<notin> reserved_keys" for k using ih' f that by simp
    next
      assume "\<forall>s \<in> set (st # rest). \<forall>out. snd (snd s) \<noteq> TerminalStage out"
      then show "\<exists>d'. run_stages lib rest d1 = Inr d'" using ih by simp
    qed
  qed
qed

theorem stages_preserve_data_witness:
  "\<exists>d'. run_stages byte_lib [(''t0'', NodeId ''n'', ReceptorStage), (''t1'', NodeId ''n'', TerminalStage ''out'')]
      \<lparr>ad_batches = [1, 2], ad_schema = 0, ad_metadata = [''k'' \<mapsto> ''v'']\<rparr> = Inr d'
    \<and> ad_batches d' = [1, 2] \<and> ad_metadata d' ''stage'' = Some ''terminal'' \<and> ad_metadata d' ''k'' = Some ''v''"
proof -
  let ?st = "[(''t0'', NodeId ''n'', ReceptorStage), (''t1'', NodeId ''n'', TerminalStage ''out'')]"
  let ?d = "\<lparr>ad_batches = [1, 2], ad_schema = 0, ad_metadata = [''k'' \<mapsto> ''v'']\<rparr>"
  obtain d' where d': "run_stages byte_lib ?st ?d = Inr d'"
    by (simp add: Let_def parquet_write_def byte_lib_def try_or_def)
  have "''k'' \<notin> reserved_keys" by (simp add: reserved_keys_def)
  with stages_preserve_data [of byte_lib ?st ?d True] d' show ?thesis
    by (intro exI [of _ d']) (simp del: run_stages.simps One_nat_def)
qed

section \<open>IPC\<close>

text \<open>
  The documented behaviour of the IPC file writer and reader, one call at a time: \<open>holds w s bs\<close> says
  that the writer \<open>w\<close> was opened for the schema \<open>s\<close> and has taken the batches \<open>bs\<close>. Opening a writer takes
  no batch; a successful \<open>write\<close> of a batch of that schema takes it after those before; and when
  \<open>finish\<close> succeeds, a reader of the buffer finds the schema and yields those batches in order.
\<close>

definition codec_ok :: "('b, 's, 'w, 'f, 'p) arrow_lib \<Rightarrow> ('w \<Rightarrow> 's \<Rightarrow> 'b list \<Rightarrow> bool) \<Rightarrow> bool" where
  "codec_ok lib holds \<longleftrightarrow>
     (\<forall>s w. ipc_writer lib s = Inr w \<longrightarrow> holds w s [])
   \<and> (\<forall>w s bs b w'. holds w s bs \<and> schema_of lib b = s \<and> ipc_write lib w b = Inr w' \<longrightarrow> holds w' s (bs @ [b]))
   \<and> (\<forall>w s bs code. holds w s bs \<and> ipc_finish lib w = Inr code \<longrightarrow> ipc_reader lib code = Inr (s, map Inr bs))"

lemma write_batches_holds:
  assumes "codec_ok lib holds"
  shows "holds w s bs \<Longrightarrow> \<forall>b \<in> set bs'. schema_of lib b = s \<Longrightarrow>
    write_batches ArrowError (ipc_write lib) w bs' = Inr w' \<Longrightarrow> holds w' s (bs @ bs')"
proof (induction bs' arbitrary: w bs)
  case (Cons b bs')
  obtain w1 where w1: "ipc_write lib w b = Inr w1" "write_batches ArrowError (ipc_write lib) w1 bs' = Inr w'"
    using Cons.prems(3) by (auto simp: try_or_def split: sum.splits)
  have "holds w1 s (bs @ [b])" using assms Cons.prems(1,2) w1(1) unfolding codec_ok_def by auto
  then show ?case using Cons.IH [of w1 "bs @ [b]"] Cons.prems(2) w1(2) by simp
qed simp

lemma read_batches_ok: "read_batches (map Inr bs) = Inr bs"
  by (induction bs) (simp_all add: try_or_def)

lemma read_batches_bad: "Inl e \<in> set rs \<Longrightarrow> \<exists>e'. read_batches rs = Inl (ArrowError e')"
proof (induction rs)
  case (Cons r rs)
  then show ?case by (cases r) (auto simp: try_or_def)
qed simp

lemma to_ipc_Inr:
  "to_ipc lib d = Inr code \<longleftrightarrow> (\<exists>w w'. ipc_writer lib (ad_schema d) = Inr w
     \<and> write_batches ArrowError (ipc_write lib) w (ad_batches d) = Inr w' \<and> ipc_finish lib w' = Inr code)"
  by (auto simp: to_ipc_def try_or_def split: sum.splits)

text \<open>
  C28: For data whose batches have its schema, and a codec that keeps its laws call by call, the
  IPC round trip keeps every batch in order and the schema, so the number of rows, and loses the metadata, whatever it
  was; hence it is idempotent: a second round trip changes nothing more.
\<close>

theorem ipc_round_trip:
  assumes "codec_ok lib holds" and "\<forall>b \<in> set (ad_batches d). schema_of lib b = ad_schema d"
    and "to_ipc lib d = Inr code"
  shows "\<exists>d'. from_ipc lib code = Inr d' \<and> d' = d\<lparr>ad_metadata := Map.empty\<rparr>
    \<and> total_rows lib checks d' = total_rows lib checks d \<and> to_ipc lib d' = Inr code"
proof -
  obtain w w' where w: "ipc_writer lib (ad_schema d) = Inr w"
      "write_batches ArrowError (ipc_write lib) w (ad_batches d) = Inr w'" "ipc_finish lib w' = Inr code"
    using assms(3) unfolding to_ipc_Inr by blast
  have "holds w (ad_schema d) []" using assms(1) w(1) unfolding codec_ok_def by blast
  from write_batches_holds [OF assms(1) this assms(2) w(2)]
  have "ipc_reader lib code = Inr (ad_schema d, map Inr (ad_batches d))"
    using assms(1) w(3) unfolding codec_ok_def append_Nil by blast
  then have "from_ipc lib code = Inr (d\<lparr>ad_metadata := Map.empty\<rparr>)"
    by (cases d) (simp add: from_ipc_def try_or_def read_batches_ok from_batches_def)
  moreover have "to_ipc lib (d\<lparr>ad_metadata := Map.empty\<rparr>) = to_ipc lib d" by (simp add: to_ipc_def)
  ultimately show ?thesis using assms(3) by (simp add: total_rows_def)
qed

lemma byte_lib_codec: "codec_ok byte_lib (\<lambda>w s bs. w = s # bs)"
  by (simp add: codec_ok_def byte_lib_def)

theorem ipc_round_trip_witness:
  "to_ipc byte_lib \<lparr>ad_batches = [200, 201], ad_schema = 3, ad_metadata = [''stage'' \<mapsto> ''wasm'']\<rparr> = Inr [3, 200, 201]
   \<and> from_ipc byte_lib [3, 200, 201] = Inr \<lparr>ad_batches = [200, 201], ad_schema = 3, ad_metadata = Map.empty\<rparr>"
proof -
  let ?d = "\<lparr>ad_batches = [200, 201], ad_schema = 3, ad_metadata = [''stage'' \<mapsto> ''wasm'']\<rparr>"
  have "to_ipc byte_lib ?d = Inr [3, 200, 201]" by (simp add: to_ipc_def byte_lib_def try_or_def)
  moreover have "schema_of byte_lib 200 = 3" "schema_of byte_lib 201 = 3" by (simp_all add: byte_lib_def)
  ultimately show ?thesis using ipc_round_trip [OF byte_lib_codec, of ?d "[3, 200, 201]"] by simp
qed

end
