(* ===== verification/TestsCore.thy ===== *)
theory TestsCore
  imports CoreTypes GraphStore WasmRuntime DataPlane
begin

text \<open>
  The unit tests of \<open>kineplex-core\<close> (\<open>lib.rs\<close>, \<open>error.rs\<close>, \<open>graph.rs\<close>, \<open>wasm.rs\<close>, \<open>data.rs\<close>)
  replayed on the model: a definition is the conjunction of the assertions of one or of several
  consecutive tests, a lemma that they hold. What a test draws at random or reads from the clock
  is an argument, so a replay covers every run of the test. Tests of serialisation (\<open>serde\<close>) and
  of third-party crates are left out.
\<close>

section \<open>Types and errors\<close>

definition stage_tests :: bool where
  "stage_tests \<longleftrightarrow>
     stage_name Receptor = ''receptor'' \<and> stage_name Wasm = ''wasm''
     \<and> stage_name Aggregation = ''aggregation'' \<and> stage_name Terminal = ''terminal''
     \<and> length stage_all = 4"

definition status_tests :: bool where
  "status_tests \<longleftrightarrow>
     \<not> is_terminal Pending \<and> \<not> is_terminal Running \<and> is_terminal Completed
     \<and> is_terminal (Failed ''error'') \<and> is_terminal Cancelled
     \<and> is_active Pending \<and> is_active Running \<and> \<not> is_active Completed
     \<and> \<not> is_active (Failed ''error'') \<and> \<not> is_active Cancelled
     \<and> status_as_str Pending = ''pending'' \<and> status_as_str Running = ''running''
     \<and> status_as_str Completed = ''completed'' \<and> status_as_str (Failed ''err'') = ''failed''
     \<and> status_as_str Cancelled = ''cancelled''
     \<and> status_display Pending = ''pending'' \<and> status_display Running = ''running''
     \<and> status_display Completed = ''completed'' \<and> status_display (Failed ''err'') = ''failed: err''
     \<and> status_display Cancelled = ''cancelled''"

definition config_tests :: bool where
  "config_tests \<longleftrightarrow>
     (let c = graph_config_default in
      gc_max_memory_mb c = 512 \<and> gc_max_fuel c = 1000000 \<and> gc_enable_simd c \<and> gc_output_path c = None)
     \<and> (let c = with_output_path ''/output'' (with_simd False (with_max_fuel 2000000 (with_max_memory 1024 graph_config_new))) in
      gc_max_memory_mb c = 1024 \<and> gc_max_fuel c = 2000000 \<and> \<not> gc_enable_simd c \<and> gc_output_path c = Some ''/output'')"

definition graph_tests :: "graph_id \<Rightarrow> bool" where
  "graph_tests gid \<longleftrightarrow>
     (let g = create_distributed_graph gid (Some ''tenant-1'') graph_config_default in
      length (g_stages g) = 4 \<and> g_status g = Pending \<and> g_tenant_id g = Some ''tenant-1'')
     \<and> length (g_stages (graph_new gid graph_config_default)) = 4
     \<and> g_tenant_id (with_tenant ''tenant-2'' (graph_new gid graph_config_default)) = Some ''tenant-2''
     \<and> g_status (with_status Running (graph_new gid graph_config_default)) = Running
     \<and> stages_count (create_distributed_graph gid None graph_config_default) = 4"

definition metrics_tests :: "(string \<times> u64) list \<Rightarrow> bool" where
  "metrics_tests es \<longleftrightarrow>
     em_total_time_ms execution_metrics_new = 0 \<and> em_stage_times_ms execution_metrics_new = Map.empty
     \<and> (let m = with_nodes 2 (with_rows 1000 (with_cpu_time 300 (with_memory 1024
            (with_stage_time ''wasm'' 200 (with_stage_time ''receptor'' 100 execution_metrics_new))))) in
        card (dom (em_stage_times_ms m)) = 2 \<and> em_memory_peak_bytes m = 1024 \<and> em_cpu_time_ms m = 300
        \<and> em_rows_processed m = 1000 \<and> em_nodes_involved m = 2)
     \<and> (let m = with_stage_time ''wasm'' 200 (with_stage_time ''receptor'' 100 execution_metrics_new) in
        iterates es (em_stage_times_ms m) \<longrightarrow> total_stage_time True es = Some 300)"

definition result_tests :: "graph_id \<Rightarrow> bool" where
  "result_tests gid \<longleftrightarrow>
     (let r = execution_result_new gid Completed execution_metrics_new in
        er_status r = Completed \<and> er_output r = None \<and> er_output_path r = None
        \<and> er_output (with_output [1, 2, 3] r) \<noteq> None
        \<and> er_output_path (with_result_path ''/output/data.parquet'' r) \<noteq> None
        \<and> is_success r \<and> \<not> is_success (execution_result_new gid (Failed ''error'') execution_metrics_new))"

definition helper_tests :: "graph_id \<Rightarrow> bool" where
  "helper_tests gid \<longleftrightarrow>
     (let g = create_distributed_graph gid (Some ''tenant-1'') graph_config_default in
        length (g_stages g) = 4 \<and> g_stages g ! 0 = Receptor \<and> g_stages g ! 1 = Wasm
        \<and> g_stages g ! 2 = Aggregation \<and> g_stages g ! 3 = Terminal)
     \<and> length (g_stages (create_simple_graph gid (Some ''tenant-1''))) = 4"

definition error_tests :: bool where
  "error_tests \<longleftrightarrow>
     core_error_display (GraphNotFound ''graph-123'') = ''Graph not found: graph-123''
     \<and> core_error_display (ExecutionFailed ''timeout'') = ''Execution failed: timeout''
     \<and> core_error_display (WasmError ''out of fuel'') = ''Wasm runtime error: out of fuel''
     \<and> core_error_display (DataPlaneError ''connection lost'') = ''Data plane error: connection lost''
     \<and> core_error_display (SerializationError ''invalid json'') = ''Serialization error: invalid json''
     \<and> core_error_display (ParquetError ''write failed'') = ''Parquet error: write failed''
     \<and> core_error_display (ArrowError ''schema mismatch'') = ''Arrow error: schema mismatch''
     \<and> core_error_display (InvalidState ''graph already running'') =
         ''Graph not in valid state for operation: graph already running''
     \<and> core_error_display (QuotaExceeded ''memory limit'') = ''Resource quota exceeded: memory limit''
     \<and> core_error_display AuthenticationRequired = ''Authentication required''
     \<and> core_error_display (AuthorizationFailed ''invalid token'') = ''Authorization failed: invalid token''
     \<and> core_error_display (IdempotencyKeyExists ''key-123'') = ''Idempotency key already exists: key-123''
     \<and> core_error_display (ProtocolVersionMismatch ''1.0.0'' ''0.9.0'') =
         ''Protocol version mismatch: expected 1.0.0, got 0.9.0''"

section \<open>Graph store\<close>

definition store_tests :: "(uuid \<Rightarrow> string) \<Rightarrow> graph_id \<Rightarrow> bool" where
  "store_tests show_uuid gid \<longleftrightarrow>
     (let g = create_distributed_graph gid (Some ''tenant-1'') graph_config_default;
          (s, r) = create_graph g graph_store_new;
          s' = register_idempotency ''my-key'' (projr r) s
      in \<not> isl r \<and> \<not> isl (get_graph show_uuid (projr r) s) \<and> g_id (projr (get_graph show_uuid (projr r) s)) = projr r
       \<and> check_idempotency ''my-key'' s' = Some (projr r) \<and> check_idempotency ''non-existent'' s' = None)"

text \<open>\<open>other\<close> is the identifier drawn for the graph that is not in the store.\<close>

definition store_status_test ::
  "(uuid \<Rightarrow> string) \<Rightarrow> graph_id \<Rightarrow> graph_id \<Rightarrow> (graph_id \<times> graph) list \<Rightarrow> bool" where
  "store_status_test show_uuid gid other es \<longleftrightarrow>
     (let g = create_distributed_graph gid (Some ''tenant'') graph_config_default;
          s = fst (create_graph g graph_store_new);
          (s', r) = update_status show_uuid gid Running s
      in \<not> isl r \<and> g_status (projr (get_graph show_uuid gid s')) = Running
       \<and> (iterates es (graphs s') \<longrightarrow> length (list_graphs es) = 1)
       \<and> (other \<noteq> gid \<longrightarrow> isl (snd (update_status show_uuid other Running s'))))"

text \<open>\<open>Duration::hours\<close> in nanoseconds; the clock stands still during the test.\<close>

definition key_lifetime_test :: "time \<Rightarrow> bool" where
  "key_lifetime_test now \<longleftrightarrow>
     (let plus_hours = (\<lambda>t h. t + h * 3600000000000) in
      idempotency_key_is_valid now (idempotency_key_new plus_hours now ''key'' 1)
      \<and> \<not> idempotency_key_is_valid now (idempotency_key_new plus_hours now ''expired'' (- 1))
      \<and> list_graphs [] = [])"

definition executor_tests ::
  "(uuid \<Rightarrow> string) \<Rightarrow> (nat \<Rightarrow> u64) \<Rightarrow> u64 \<Rightarrow> graph_id \<Rightarrow> graph_id \<Rightarrow> bool" where
  "executor_tests show_uuid elapsed total_ms gid other \<longleftrightarrow>
     (let new = (\<lambda>gid. create_distributed_graph gid (Some ''tenant'') graph_config_default);
          (s, r) = executor_submit (new gid) (Some ''request-1'') graph_store_new;
          (s1, r1) = executor_submit (new other) (Some ''request-1'') s;
          (s2, x) = executor_execute show_uuid elapsed total_ms (projr r) s1
      in \<not> isl r \<and> \<not> isl r1 \<and> projr r1 = projr r \<and> \<not> isl x \<and> is_success (projr x)
       \<and> executor_status show_uuid (projr r) s2 = Inr Completed
       \<and> card (dom (em_stage_times_ms (er_metrics (projr x)))) = 4)
     \<and> (let (s, r) = executor_submit (create_distributed_graph gid (Some ''tenant'') graph_config_default) None graph_store_new;
          (s1, c) = executor_cancel show_uuid (projr r) s
      in \<not> isl c \<and> executor_status show_uuid (projr r) s1 = Inr Cancelled
       \<and> (other \<noteq> gid \<longrightarrow> isl (executor_status show_uuid other s1)))"

section \<open>Tenants, modules, stages\<close>

definition tenant_test :: bool where
  "tenant_test \<longleftrightarrow>
     (let m = register_tenant \<lparr>tq_tenant_id = ''tenant-1'', tq_max_concurrent = 5, tq_max_memory_mb = 512,
            tq_max_fuel = 1000000, tq_rate_limit_per_minute = 100\<rparr> resource_manager_new
      in can_execute ''tenant-1'' m = Inr True
       \<and> (case record_execution_start True ''tenant-1'' m of
            None \<Rightarrow> False | Some m1 \<Rightarrow> can_execute ''tenant-1'' m1 = Inr True))"

definition tenant_limits_test :: bool where
  "tenant_limits_test \<longleftrightarrow>
     isl (can_execute ''missing'' resource_manager_new)
     \<and> (let m = register_tenant \<lparr>tq_tenant_id = ''tenant'', tq_max_concurrent = 1, tq_max_memory_mb = 10,
              tq_max_fuel = 20, tq_rate_limit_per_minute = 2\<rparr> resource_manager_new
        in map_option tq_max_memory_mb (get_quota ''tenant'' m) = Some 10
         \<and> (case record_execution_start True ''tenant'' m of
              None \<Rightarrow> False
            | Some m1 \<Rightarrow> can_execute ''tenant'' m1 = Inr False
                \<and> can_execute ''tenant'' (record_execution_end ''tenant'' (record_execution_end ''tenant'' m1)) = Inr True)
         \<and> get_quota ''none'' m = None)"

text \<open>
  \<open>engine_new\<close>, \<open>compile\<close> and \<open>set_fuel\<close> are Wasmtime's: it builds the engine, compiles the
  header of a module and rejects other bytes, and takes the fuel limit.
\<close>

definition runtime_test :: "(bool \<Rightarrow> string + 'e) \<Rightarrow> ('e \<Rightarrow> bytes \<Rightarrow> string + 'm) \<Rightarrow> (u64 \<Rightarrow> string + unit) \<Rightarrow> bool" where
  "runtime_test engine_new compile set_fuel \<longleftrightarrow>
     (let module = [0, 97, 115, 109, 1, 0, 0, 0]; invalid = [105, 110, 118, 97, 108, 105, 100]; input = [105, 110, 112, 117, 116];
          r0 = runtime_new (Inl ''unused'') engine_new (wasm_config_default\<lparr>wc_enable_cache := False\<rparr>);
          (r1, c1) = compile_module compile ''empty'' module (projr r0);
          (r2, c2) = compile_module compile ''empty'' module r1
      in \<not> isl r0 \<and> \<not> isl c1 \<and> \<not> isl c2 \<and> cache_size r2 = 1 \<and> wasm_execute set_fuel ''empty'' input r2 = Inr input
       \<and> isl (wasm_execute set_fuel ''missing'' [] r2) \<and> isl (snd (compile_module compile ''bad'' invalid r2)))"

definition context_test :: "string \<Rightarrow> bool" where
  "context_test eid \<longleftrightarrow>
     (let c = execution_context_new eid ''tenant'' [1, 2] wasm_config_default
      in wx_tenant_id c = ''tenant'' \<and> wx_input c = [1, 2] \<and> (eid \<noteq> [] \<longrightarrow> wx_execution_id c \<noteq> []))"

definition stage_executor_test ::
  "('b, 's, 'w, 'f, 'p) arrow_lib \<Rightarrow> string \<Rightarrow> ('b, 's) arrow_data \<Rightarrow> bool" where
  "stage_executor_test lib now input \<longleftrightarrow>
     (let node = NodeId ''node-1'';
          receptor = projr (stage_execute lib now node ReceptorStage input);
          wasm = projr (stage_execute lib now node (WasmStage [1, 2, 3] 64 1000) receptor);
          aggregate = projr (stage_execute lib now node AggregationStage wasm)
      in ad_metadata receptor ''stage'' = Some ''receptor''
       \<and> ad_metadata wasm ''stage'' = Some ''wasm'' \<and> ad_metadata wasm ''wasm_module_bytes'' = Some ''3''
       \<and> ad_metadata aggregate ''stage'' = Some ''aggregation'')"

section \<open>The tests pass\<close>

lemma stage_tests_pass: stage_tests
  by (simp add: stage_tests_def stage_all_def)

lemma status_tests_pass: status_tests
  by (simp add: status_tests_def)

lemma config_tests_pass: config_tests
  by (simp add: config_tests_def core_defs)

lemma graph_tests_pass: "graph_tests gid"
  by (simp add: graph_tests_def core_defs stage_all_def)

lemma metrics_tests_pass: "metrics_tests es"
proof -
  let ?m = "with_stage_time ''wasm'' 200 (with_stage_time ''receptor'' 100 execution_metrics_new)"
  have "iterates [(''wasm'', 200), (''receptor'', 100)] (em_stage_times_ms ?m)"
    by (auto simp: iterates_def core_defs)
  then have "total_stage_time True es = Some 300" if "iterates es (em_stage_times_ms ?m)"
    using total_stage_time_order_independent [OF that, of "[(''wasm'', 200), (''receptor'', 100)]" True]
    by (simp add: total_stage_time_def add_chk_def)
  then show ?thesis by (simp add: metrics_tests_def core_defs)
qed

lemma result_tests_pass: "result_tests gid"
  by (simp add: result_tests_def core_defs)

lemma helper_tests_pass: "helper_tests gid"
  by (simp add: helper_tests_def core_defs)

lemma error_tests_pass: error_tests
  by (simp add: error_tests_def)

lemma store_tests_pass: "store_tests show_uuid gid"
  by (simp add: store_tests_def store_op_defs graph_store_new_def core_defs)

lemma store_status_test_pass: "store_status_test show_uuid gid other es"
  by (auto simp: store_status_test_def store_op_defs update_status_def graph_store_new_def core_defs
      list_graphs_def dest: iterates_length)

lemma key_lifetime_test_pass: "key_lifetime_test now"
  by (simp add: key_lifetime_test_def idempotency_key_is_valid_def idempotency_key_new_def list_graphs_def)

lemma executor_tests_pass: "executor_tests show_uuid elapsed total_ms gid other"
  by (simp add: executor_tests_def executor_submit_def executor_execute_def executor_status_def executor_cancel_def
      store_op_defs update_status_def graph_store_new_def core_defs)

lemma tenant_test_pass: tenant_test
  by (simp add: tenant_test_def register_tenant_def resource_manager_new_def can_execute_def
      record_execution_start_def active_count_def add_chk_def word_le_nat_alt)

lemma tenant_limits_test_pass: tenant_limits_test
  by (simp add: tenant_limits_test_def register_tenant_def resource_manager_new_def can_execute_def
      record_execution_start_def record_execution_end_def active_count_def add_chk_def get_quota_def)

lemma runtime_test_pass:
  assumes "engine_new True = Inr eng" "compile eng [0, 97, 115, 109, 1, 0, 0, 0] = Inr m"
    and "compile eng [105, 110, 118, 97, 108, 105, 100] = Inl e" "set_fuel 1000000 = Inr ()"
  shows "runtime_test engine_new compile set_fuel"
  using assms by (simp add: runtime_test_def runtime_new_def wasm_config_default_def compile_module_def
      cache_size_def wasm_execute_def)

lemma context_test_pass: "context_test eid"
  by (simp add: context_test_def execution_context_new_def)

lemma stage_executor_test_pass: "stage_executor_test lib now input"
proof -
  have "show_nat (Suc (Suc (Suc 0))) = ''3''" by code_simp
  then show ?thesis by (simp add: stage_executor_test_def add_metadata_def)
qed

end
