(* ===== verification/F64.thy ===== *)
theory F64
  imports Prelude
begin

text \<open>
  IEEE 754 binary64, Rust's \<open>f64\<close>, as the code uses it: the value of a finite number is a
  rational (of the form \<open>m * 2 powi k\<close>), with the two zeros, the infinities and one NaN beside it.
  Each operation computes the exact rational result and rounds it to nearest, ties to even,
  with 53 significant bits, gradual underflow at \<open>2 powi (-1074)\<close> and overflow to an infinity.
  The lemmas are what the components use: rounding is monotone, odd and exact on representable
  numbers, and the order operations are those of a linear order away from NaN.
\<close>

section \<open>Rounding\<close>

text \<open>The number of binary digits, and with it the exponent of a positive rational.\<close>

fun nbits :: "nat \<Rightarrow> nat" where
  "nbits n = (if n = 0 then 0 else Suc (nbits (n div 2)))"

declare nbits.simps [simp del]

definition ilog2 :: "rat \<Rightarrow> int" where
  "ilog2 q = (if 1 \<le> q then int (nbits (nat \<lfloor>q\<rfloor>)) - 1 else - int (nbits (nat (\<lceil>1 / q\<rceil> - 1))))"

text \<open>Round half to even.\<close>

definition rne :: "rat \<Rightarrow> int" where
  "rne x = (let f = \<lfloor>x\<rfloor>; r = x - of_int f in
     if r < 1 / 2 then f else if 1 / 2 < r then f + 1 else if even f then f else f + 1)"

definition ulp_exp :: "rat \<Rightarrow> int" where
  "ulp_exp q = max (ilog2 \<bar>q\<bar> - 52) (- 1074)"

definition round_rat :: "rat \<Rightarrow> rat" where
  "round_rat q = (if q = 0 then 0 else of_int (rne (q / 2 powi ulp_exp q)) * 2 powi ulp_exp q)"

section \<open>Values and operations\<close>

datatype f64 = NaN | PosInf | NegInf | NegZero | Fin rat

definition is_nan :: "f64 \<Rightarrow> bool" where
  "is_nan x \<longleftrightarrow> x = NaN"

fun finite_f64 :: "f64 \<Rightarrow> bool" where
  "finite_f64 NegZero = True"
| "finite_f64 (Fin _) = True"
| "finite_f64 _ = False"

fun fval :: "f64 \<Rightarrow> rat" where
  "fval (Fin q) = q"
| "fval _ = 0"

text \<open>The sign bit (of NaN it is irrelevant).\<close>

fun fsign :: "f64 \<Rightarrow> bool" where
  "fsign NegInf = True"
| "fsign NegZero = True"
| "fsign (Fin q) = (q < 0)"
| "fsign _ = False"

definition fzero :: "bool \<Rightarrow> f64" where
  "fzero s = (if s then NegZero else Fin 0)"

definition finf :: "bool \<Rightarrow> f64" where
  "finf s = (if s then NegInf else PosInf)"

text \<open>Rounding an exact result; \<open>s\<close> is the sign of a zero result.\<close>

definition fround :: "bool \<Rightarrow> rat \<Rightarrow> f64" where
  "fround s q = (let r = round_rat q in
     if r = 0 then fzero s else if 2 ^ 1024 \<le> \<bar>r\<bar> then finf (r < 0) else Fin r)"

text \<open>A decimal literal, and the conversion of an unsigned integer (\<open>as f64\<close>).\<close>

definition flit :: "rat \<Rightarrow> f64" where
  "flit q = fround (q < 0) q"

definition f_of_nat :: "nat \<Rightarrow> f64" where
  "f_of_nat n = fround False (of_nat n)"

fun f_neg :: "f64 \<Rightarrow> f64" where
  "f_neg NaN = NaN"
| "f_neg PosInf = NegInf"
| "f_neg NegInf = PosInf"
| "f_neg NegZero = Fin 0"
| "f_neg (Fin q) = (if q = 0 then NegZero else Fin (- q))"

definition f_add :: "f64 \<Rightarrow> f64 \<Rightarrow> f64" where
  "f_add x y =
     (if x = NaN \<or> y = NaN then NaN
      else if \<not> finite_f64 x then (if \<not> finite_f64 y \<and> x \<noteq> y then NaN else x)
      else if \<not> finite_f64 y then y
      else fround (x = NegZero \<and> y = NegZero) (fval x + fval y))"

definition f_sub :: "f64 \<Rightarrow> f64 \<Rightarrow> f64" where
  "f_sub x y = f_add x (f_neg y)"

definition f_mul :: "f64 \<Rightarrow> f64 \<Rightarrow> f64" where
  "f_mul x y =
     (let s = (fsign x \<noteq> fsign y) in
      if x = NaN \<or> y = NaN then NaN
      else if finite_f64 x \<and> finite_f64 y then fround s (fval x * fval y)
      else if (finite_f64 x \<and> fval x = 0) \<or> (finite_f64 y \<and> fval y = 0) then NaN
      else finf s)"

definition f_div :: "f64 \<Rightarrow> f64 \<Rightarrow> f64" where
  "f_div x y =
     (let s = (fsign x \<noteq> fsign y) in
      if x = NaN \<or> y = NaN then NaN
      else if \<not> finite_f64 x then (if \<not> finite_f64 y then NaN else finf s)
      else if \<not> finite_f64 y then fzero s
      else if fval y = 0 then (if fval x = 0 then NaN else finf s)
      else fround s (fval x / fval y))"

fun f_abs :: "f64 \<Rightarrow> f64" where
  "f_abs NegInf = PosInf"
| "f_abs NegZero = Fin 0"
| "f_abs (Fin q) = Fin \<bar>q\<bar>"
| "f_abs x = x"

text \<open>Order: \<open>-\<infinity>\<close>, the rationals, \<open>+\<infinity>\<close>; the zeros are equal, NaN is unordered.\<close>

fun fclass :: "f64 \<Rightarrow> int" where
  "fclass NegInf = - 1"
| "fclass PosInf = 1"
| "fclass _ = 0"

definition f_lt :: "f64 \<Rightarrow> f64 \<Rightarrow> bool" where
  "f_lt x y \<longleftrightarrow> x \<noteq> NaN \<and> y \<noteq> NaN \<and>
     (fclass x < fclass y \<or> (fclass x = fclass y \<and> fval x < fval y))"

definition f_le :: "f64 \<Rightarrow> f64 \<Rightarrow> bool" where
  "f_le x y \<longleftrightarrow> x \<noteq> NaN \<and> y \<noteq> NaN \<and>
     (fclass x < fclass y \<or> (fclass x = fclass y \<and> fval x \<le> fval y))"

text \<open>
  \<open>f64::max\<close> (a NaN argument is ignored) and \<open>f64::clamp\<close> (a panic unless \<open>lo <= hi\<close>; NaN stays
  NaN).
\<close>

definition f_max :: "f64 \<Rightarrow> f64 \<Rightarrow> f64" where
  "f_max x y = (if x = NaN then y else if y = NaN then x else if f_lt x y then y else x)"

definition f_clamp :: "f64 \<Rightarrow> f64 \<Rightarrow> f64 \<Rightarrow> f64 option" where
  "f_clamp x lo hi =
     (if f_le lo hi then Some (if f_lt x lo then lo else if f_lt hi x then hi else x) else None)"

text \<open>
  \<open>iter().sum()\<close>, \<open>powi(2)\<close>, and the saturating conversion \<open>as usize\<close> (NaN becomes 0). The sum starts
  at \<open>+0.0\<close>; newer versions of the standard library start it at \<open>-0.0\<close>, which changes no more than the sign
  of a zero sum.
\<close>

definition f_sum :: "f64 list \<Rightarrow> f64" where
  "f_sum xs = foldl f_add (Fin 0) xs"

definition f_sq :: "f64 \<Rightarrow> f64" where
  "f_sq x = f_mul x x"

definition f_to_usize :: "f64 \<Rightarrow> nat" where
  "f_to_usize x = (case x of PosInf \<Rightarrow> 2 ^ 64 - 1
     | Fin q \<Rightarrow> min (2 ^ 64 - 1) (nat \<lfloor>q\<rfloor>) | _ \<Rightarrow> 0)"

text \<open>\<open>f64::EPSILON\<close> and \<open>u32::MAX as f64\<close>, both exact.\<close>

definition f_epsilon :: f64 where
  "f_epsilon = Fin (1 / 2 ^ 52)"

definition f_u32_max :: f64 where
  "f_u32_max = Fin (2 ^ 32 - 1)"

section \<open>Facts about the exponent\<close>

lemma nbits_bounds: "0 < n \<Longrightarrow> 2 ^ (nbits n - 1) \<le> n \<and> n < 2 ^ nbits n \<and> 0 < nbits n"
proof (induction n rule: nbits.induct)
  case (1 n)
  show ?case
  proof (cases "n div 2 = 0")
    case True
    with "1.prems" have "n = 1" by auto
    then show ?thesis by (simp add: nbits.simps [of "Suc 0"] nbits.simps [of 0])
  next
    case False
    let ?k = "nbits (n div 2)"
    have IH: "2 ^ (?k - 1) \<le> n div 2" "n div 2 < 2 ^ ?k" "0 < ?k"
      using "1.IH" "1.prems" False by auto
    then have "2 * 2 ^ (?k - 1) \<le> n" "n < 2 * 2 ^ ?k" by linarith+
    moreover have "2 * 2 ^ (?k - 1) = (2 ^ ?k :: nat)"
      using IH(3) by (cases ?k) simp_all
    ultimately show ?thesis using "1.prems" by (simp add: nbits.simps [of n])
  qed
qed

lemma powi_int: "(2 :: rat) powi (int n) = 2 ^ n"
  by simp

lemma powi_neg: "(2 :: rat) powi (- int n) = 1 / 2 ^ n"
  by (simp add: power_int_minus field_simps)

lemma powi_pos [simp]: "0 < (2 :: rat) powi k"
  by (simp add: zero_less_power_int)

lemma powi_nonzero [simp]: "(2 :: rat) powi k \<noteq> 0"
  using powi_pos [of k] by linarith

lemma powi_le_iff [simp]: "(2 :: rat) powi i \<le> 2 powi j \<longleftrightarrow> i \<le> j"
  using power_int_increasing [of i j "2 :: rat"] power_int_strict_increasing [of j i "2 :: rat"]
  by force

lemma powi_less_iff [simp]: "(2 :: rat) powi i < 2 powi j \<longleftrightarrow> i < j"
  by (metis linorder_not_less powi_le_iff)

lemma powi_split: "(2 :: rat) powi (i + j) = 2 powi i * 2 powi j"
  by (simp add: power_int_add)

lemma powi_diff: "(2 :: rat) powi i / 2 powi j = 2 powi (i - j)"
  by (simp add: power_int_diff)

lemma nbits_bounds_rat:
  assumes "0 < n"
  shows "(2 :: rat) ^ (nbits n - 1) \<le> of_nat n" and "of_nat n + 1 \<le> (2 :: rat) ^ nbits n"
proof -
  show "(2 :: rat) ^ (nbits n - 1) \<le> of_nat n"
    using nbits_bounds [OF assms] by (metis of_nat_le_iff of_nat_numeral of_nat_power)
  have "of_nat (Suc n) \<le> (2 :: rat) ^ nbits n"
    using nbits_bounds [OF assms] by (metis Suc_leI of_nat_le_iff of_nat_numeral of_nat_power)
  then show "of_nat n + 1 \<le> (2 :: rat) ^ nbits n" by (simp add: add.commute)
qed

lemma ilog2_bounds_big:
  assumes "1 \<le> q"
  shows "2 powi ilog2 q \<le> q \<and> q < 2 powi (ilog2 q + 1)"
proof -
  let ?n = "nat \<lfloor>q\<rfloor>"
  have n: "0 < ?n" using assms by simp
  have fl: "of_nat ?n \<le> q" "q < of_nat ?n + 1"
    using assms by (simp_all add: of_nat_nat) linarith
  have e: "ilog2 q = int (nbits ?n - 1)" "ilog2 q + 1 = int (nbits ?n)"
    using assms nbits_bounds [OF n] by (simp_all add: ilog2_def of_nat_diff)
  show ?thesis
    using e nbits_bounds_rat [OF n] fl by (metis (no_types, lifting) order.trans order.strict_trans2 powi_int)
qed

lemma ilog2_bounds_small:
  assumes "0 < q" "q < 1"
  shows "2 powi ilog2 q \<le> q \<and> q < 2 powi (ilog2 q + 1)"
proof -
  let ?c = "\<lceil>1 / q\<rceil>"
  let ?n = "nat (?c - 1)"
  have "1 < 1 / q" using assms by simp
  then have c2: "2 \<le> ?c" by linarith
  then have n: "0 < ?n" by simp
  have cr: "of_int ?c - 1 < 1 / q" "1 / q \<le> of_int ?c" by linarith+
  have "0 \<le> ?c - 1" using c2 by linarith
  then have rn: "(of_nat ?n :: rat) = of_int ?c - 1" by (simp only: of_nat_nat of_int_diff of_int_1)
  have hi: "1 / q \<le> 2 ^ nbits ?n" and lo: "2 ^ (nbits ?n - 1) < 1 / q"
    using nbits_bounds_rat [OF n] rn cr by linarith+
  have e: "ilog2 q = - int (nbits ?n)" "ilog2 q + 1 = - int (nbits ?n - 1)"
    using assms(2) nbits_bounds [OF n] by (simp_all add: ilog2_def of_nat_diff)
  have "2 powi ilog2 q \<le> q"
    unfolding e(1) powi_neg using hi assms(1) by (simp add: field_simps)
  moreover have "q < 2 powi (ilog2 q + 1)"
    unfolding e(2) powi_neg using lo assms(1) by (simp add: field_simps)
  ultimately show ?thesis by simp
qed

lemma ilog2_bounds:
  assumes "0 < q"
  shows "2 powi ilog2 q \<le> q" and "q < 2 powi (ilog2 q + 1)"
  using ilog2_bounds_big [of q] ilog2_bounds_small [of q] assms by linarith+

lemma ilog2_unique:
  assumes "0 < q" "2 powi e \<le> q" "q < 2 powi (e + 1)"
  shows "ilog2 q = e"
proof -
  have "2 powi e < (2 :: rat) powi (ilog2 q + 1)" "2 powi ilog2 q < (2 :: rat) powi (e + 1)"
    using ilog2_bounds [OF assms(1)] assms(2,3) by linarith+
  then show ?thesis by simp
qed

lemma ilog2_mono:
  assumes "0 < p" "p \<le> q"
  shows "ilog2 p \<le> ilog2 q"
proof -
  have "2 powi ilog2 p < (2 :: rat) powi (ilog2 q + 1)"
    using ilog2_bounds [of p] ilog2_bounds [of q] assms by linarith
  then show ?thesis by simp
qed

section \<open>Facts about rounding\<close>

lemma rne_of_int [simp]: "rne (of_int n) = n"
  by (simp add: rne_def)

lemma rne_dist: "\<bar>of_int (rne x) - x\<bar> \<le> 1 / 2"
proof -
  have "of_int \<lfloor>x\<rfloor> \<le> x" "x < of_int \<lfloor>x\<rfloor> + 1" by linarith+
  then show ?thesis unfolding rne_def Let_def abs_le_iff by (simp split: if_split) linarith
qed

lemma rne_mono:
  assumes "x \<le> y"
  shows "rne x \<le> rne y"
proof (rule ccontr)
  assume "\<not> rne x \<le> rne y"
  then have gap: "of_int (rne y) + 1 \<le> (of_int (rne x) :: rat)" by linarith
  have "of_int (rne x) \<le> x + 1 / 2" "y - 1 / 2 \<le> of_int (rne y)"
    using rne_dist [of x] rne_dist [of y] by linarith+
  with gap assms have "x = y" by linarith
  with \<open>\<not> rne x \<le> rne y\<close> show False by simp
qed

lemma rne_between:
  assumes "of_int n \<le> x + 1 / 2" "x - 1 / 2 \<le> of_int n" "x + 1 / 2 \<noteq> of_int n" "x - 1 / 2 \<noteq> of_int n"
  shows "rne x = n"
proof -
  have "\<bar>(of_int (rne x) :: rat) - of_int n\<bar> < 1"
    using rne_dist [of x] assms by linarith
  then have "\<bar>of_int (rne x - n) :: rat\<bar> < 1" by simp
  then show ?thesis by linarith
qed

lemma rne_minus: "rne (- x) = - rne x"
proof (cases "x = of_int \<lfloor>x\<rfloor>")
  case True
  then have "- x = of_int (- \<lfloor>x\<rfloor>)" by simp
  then show ?thesis using True by (metis rne_of_int)
next
  case False
  then have fl: "\<lfloor>- x\<rfloor> = - \<lfloor>x\<rfloor> - 1"
    by (metis ceiling_altdef ceiling_def minus_diff_eq minus_minus diff_minus_eq_add add.commute minus_add_distrib)
  show ?thesis
    by (auto simp: rne_def Let_def fl field_simps)
qed

lemma rne_0 [simp]: "rne 0 = 0"
  using rne_of_int [of 0] by simp

lemma round_rat_0 [simp]: "round_rat 0 = 0"
  by (simp add: round_rat_def)

lemma round_rat_minus [simp]: "round_rat (- q) = - round_rat q"
  by (simp add: round_rat_def ulp_exp_def rne_minus)

lemma round_rat_nonneg: "0 \<le> q \<Longrightarrow> 0 \<le> round_rat q"
  using rne_mono [of 0 "q / 2 powi ulp_exp q"] by (simp add: round_rat_def)

text \<open>A number with at most 53 significant bits at or above the smallest exponent is kept.\<close>

lemma round_rat_exact:
  assumes "\<bar>m\<bar> \<le> 2 ^ 53" "- 1074 \<le> k"
  shows "round_rat (of_int m * 2 powi k) = of_int m * 2 powi k"
proof (cases "m = 0")
  case False
  let ?q = "of_int m * 2 powi k :: rat"
  have aq: "\<bar>?q\<bar> = of_int \<bar>m\<bar> * 2 powi k" by (simp add: abs_mult)
  have m53: "(of_int \<bar>m\<bar> :: rat) \<le> 2 powi 53"
    using assms(1) of_int_le_iff [of "\<bar>m\<bar>" "2 ^ 53", where ?'a = rat] by simp
  show ?thesis
  proof (cases "\<bar>m\<bar> = 2 ^ 53")
    case True
    have "\<bar>?q\<bar> = 2 powi (53 + k)" unfolding aq True powi_split by simp
    then have il: "ilog2 \<bar>?q\<bar> = 53 + k"
      by (intro ilog2_unique) simp_all
    then have ue: "ulp_exp ?q = k + 1" using assms(2) by (simp add: ulp_exp_def)
    define h :: int where "h = sgn m * 2 ^ 52"
    have "m = h * 2" using True \<open>m \<noteq> 0\<close> by (cases "0 < m") (simp_all add: h_def)
    then have "?q = of_int h * 2 powi (k + 1)" by (simp add: powi_split)
    then have "?q / 2 powi ulp_exp ?q = of_int h" unfolding ue by simp
    then show ?thesis
      unfolding round_rat_def using \<open>?q = of_int h * 2 powi (k + 1)\<close> ue by simp
  next
    case False
    then have "\<bar>m\<bar> < 2 ^ 53" using assms(1) by simp
    then have "(of_int \<bar>m\<bar> :: rat) < 2 powi 53"
      using of_int_less_iff [of "\<bar>m\<bar>" "2 ^ 53", where ?'a = rat] by simp
    then have "\<bar>?q\<bar> < 2 powi (53 + k)" unfolding aq powi_split by simp
    moreover have "0 < \<bar>?q\<bar>" using \<open>m \<noteq> 0\<close> by simp
    ultimately have "2 powi ilog2 \<bar>?q\<bar> < (2 :: rat) powi (53 + k)"
      using ilog2_bounds(1) [of "\<bar>?q\<bar>"] by linarith
    then have "ulp_exp ?q \<le> k" using assms(2) by (simp add: ulp_exp_def)
    define h :: int where "h = m * 2 ^ nat (k - ulp_exp ?q)"
    have "(2 :: rat) powi k = 2 ^ nat (k - ulp_exp ?q) * 2 powi ulp_exp ?q"
      using \<open>ulp_exp ?q \<le> k\<close> by (simp flip: powi_int powi_split)
    then have q: "?q = of_int h * 2 powi ulp_exp ?q" by (simp add: h_def mult.assoc)
    then have "?q / 2 powi ulp_exp ?q = of_int h" by (metis nonzero_mult_div_cancel_right powi_nonzero)
    then show ?thesis unfolding round_rat_def using q by simp
  qed
qed simp

lemma round_rat_power: "- 1074 \<le> k \<Longrightarrow> round_rat (2 powi k) = 2 powi k"
  using round_rat_exact [of 1 k] by simp

lemma round_rat_int: "\<bar>m\<bar> \<le> 2 ^ 53 \<Longrightarrow> round_rat (of_int m) = of_int m"
  using round_rat_exact [of m 0] by simp

lemma round_rat_nat: "n \<le> 2 ^ 53 \<Longrightarrow> round_rat (of_nat n) = of_nat n"
  using round_rat_int [of "int n"] by simp

lemma round_rat_1 [simp]: "round_rat 1 = 1"
  using round_rat_nat [of 1] by simp

text \<open>Rounding is monotone, also across a change of exponent.\<close>

text \<open>Rounding to a fixed grid is monotone and leaves the powers of two on it alone.\<close>

lemma rne_grid_mono:
  "p \<le> q \<Longrightarrow> of_int (rne (p / 2 powi k)) * 2 powi k \<le> of_int (rne (q / 2 powi k)) * (2 :: rat) powi k"
  by (intro mult_right_mono) (simp_all add: rne_mono divide_right_mono)

lemma rne_grid_power:
  assumes "k \<le> e"
  shows "of_int (rne (2 powi e / 2 powi k)) * 2 powi k = (2 :: rat) powi e"
proof -
  have "(2 :: rat) powi e / 2 powi k = of_int (2 ^ nat (e - k))"
    using assms by (simp add: powi_diff flip: powi_int)
  then show ?thesis by (metis nonzero_divide_eq_eq powi_nonzero rne_of_int)
qed

lemma round_rat_mono_pos:
  assumes "0 < p" "p \<le> q"
  shows "round_rat p \<le> round_rat q"
proof -
  have "0 < q" using assms by simp
  let ?i = "ulp_exp p" and ?j = "ulp_exp q" and ?e = "ilog2 q"
  have rp: "round_rat p = of_int (rne (p / 2 powi ?i)) * 2 powi ?i"
    and rq: "round_rat q = of_int (rne (q / 2 powi ?j)) * 2 powi ?j"
    using assms \<open>0 < q\<close> by (simp_all add: round_rat_def)
  have ij: "?i \<le> ?j"
    using ilog2_mono [OF assms] assms \<open>0 < q\<close> by (simp add: ulp_exp_def)
  show ?thesis
  proof (cases "?i = ?j")
    case True
    then show ?thesis using rne_grid_mono [OF assms(2)] by (simp only: rp rq)
  next
    case False
    have j: "?j = ?e - 52" using False ij \<open>0 < q\<close> by (auto simp: ulp_exp_def)
    have "ilog2 p < ?e" using False ij j assms \<open>0 < q\<close> by (auto simp: ulp_exp_def)
    then have "(2 :: rat) powi (ilog2 p + 1) \<le> 2 powi ?e" by simp
    then have pe: "p \<le> 2 powi ?e" using ilog2_bounds(2) [OF assms(1)] by linarith
    have "round_rat p \<le> 2 powi ?e"
      using rne_grid_mono [OF pe, of ?i] rne_grid_power [of ?i ?e] ij j by (simp only: rp)
    also have "\<dots> \<le> round_rat q"
      using rne_grid_mono [OF ilog2_bounds(1) [OF \<open>0 < q\<close>], of ?j] rne_grid_power [of ?j ?e] j
      by (simp only: rq)
    finally show ?thesis .
  qed
qed

lemma round_rat_mono:
  assumes "p \<le> q"
  shows "round_rat p \<le> round_rat q"
proof -
  consider "0 < p" | "p \<le> 0" "0 \<le> q" | "q < 0" by linarith
  then show ?thesis
  proof cases
    case 1
    then show ?thesis using assms by (rule round_rat_mono_pos)
  next
    case 2
    then show ?thesis using round_rat_nonneg [of q] round_rat_nonneg [of "- p"] by simp
  next
    case 3
    then show ?thesis using assms round_rat_mono_pos [of "- q" "- p"] by simp
  qed
qed

text \<open>Rounding a number next to an integer far below the precision limit gives that integer.\<close>

lemma round_rat_near_int:
  assumes "0 < q" "ulp_exp q \<le> 0" "\<bar>q - of_int m\<bar> < 2 powi (ulp_exp q - 1)"
  shows "round_rat q = of_int m"
proof -
  let ?k = "ulp_exp q"
  define h :: int where "h = m * 2 ^ nat (- ?k)"
  have "(2 :: rat) ^ nat (- ?k) * 2 powi ?k = 1"
    using assms(2) by (simp flip: powi_int powi_split)
  then have m: "of_int m = of_int h * (2 :: rat) powi ?k" by (simp add: h_def mult.assoc)
  have half: "(2 :: rat) powi (?k - 1) = 2 powi ?k / 2"
    by (simp add: power_int_diff)
  have "q / 2 powi ?k - of_int h = (q - of_int m) / 2 powi ?k"
    unfolding m by (simp add: diff_divide_distrib)
  then have "\<bar>q / 2 powi ?k - of_int h\<bar> = \<bar>q - of_int m\<bar> / 2 powi ?k"
    by (simp add: abs_divide)
  also have "\<dots> < 1 / 2"
    using assms(3) unfolding half by (simp add: field_simps)
  finally have "\<bar>q / 2 powi ?k - of_int h\<bar> < 1 / 2" .
  then have "rne (q / 2 powi ?k) = h" by (intro rne_between) linarith+
  then show ?thesis using assms(1) m by (simp add: round_rat_def)
qed

text \<open>The rounded value fits in 53 bits, so rounding twice is rounding once.\<close>

lemma ulp_quotient:
  assumes "q \<noteq> 0"
  shows "\<bar>q / 2 powi ulp_exp q\<bar> \<le> 2 ^ 53"
proof -
  have "\<bar>q\<bar> < 2 powi (ilog2 \<bar>q\<bar> + 1)" using ilog2_bounds(2) [of "\<bar>q\<bar>"] assms by simp
  also have "\<dots> \<le> 2 powi (53 + ulp_exp q)" by (simp add: ulp_exp_def)
  also have "\<dots> = 2 ^ 53 * 2 powi ulp_exp q" by (simp add: powi_split)
  finally show ?thesis by (simp add: abs_divide divide_le_eq)
qed

lemma round_rat_idem [simp]: "round_rat (round_rat q) = round_rat q"
proof (cases "q = 0")
  case False
  let ?m = "rne (q / 2 powi ulp_exp q)"
  have lim: "\<bar>q / 2 powi ulp_exp q\<bar> \<le> of_int (2 ^ 53)" using ulp_quotient [OF False] by simp
  then have "?m \<le> rne (of_int (2 ^ 53))" "rne (of_int (- (2 ^ 53))) \<le> ?m"
    by (intro rne_mono; simp only: of_int_minus; linarith)+
  then have "\<bar>?m\<bar> \<le> 2 ^ 53" unfolding rne_of_int by (simp add: abs_le_iff)
  moreover have "- 1074 \<le> ulp_exp q" by (simp add: ulp_exp_def)
  ultimately show ?thesis using False by (simp add: round_rat_def [of q] round_rat_exact)
qed simp

section \<open>Facts about values\<close>

named_theorems f64_simps \<open>evaluation of the operations away from NaN and the infinities\<close>

lemma fround_finite:
  assumes "\<bar>round_rat q\<bar> < 2 ^ 1024"
  shows "finite_f64 (fround s q)" and "fval (fround s q) = round_rat q"
  using assms by (simp_all add: fround_def fzero_def Let_def)

lemma fround_not_NaN [simp]: "fround s q \<noteq> NaN"
  by (simp add: fround_def fzero_def finf_def Let_def)

lemma fzero_finite [simp]: "finite_f64 (fzero s)" "fval (fzero s) = 0" "fzero s \<noteq> NaN"
  by (simp_all add: fzero_def)

lemma finf_infinite [simp]: "\<not> finite_f64 (finf s)" "finf s \<noteq> NaN"
  by (simp_all add: finf_def)

lemma finite_not_NaN: "finite_f64 x \<Longrightarrow> x \<noteq> NaN"
  by auto

lemma finite_fclass: "finite_f64 x \<Longrightarrow> fclass x = 0"
  by (cases x) auto

lemma not_finite_iff: "\<not> finite_f64 x \<longleftrightarrow> x = NaN \<or> x = PosInf \<or> x = NegInf"
  by (cases x) auto

text \<open>A rounded result stays between representable bounds of the exact one.\<close>

lemma fround_between:
  assumes "a \<le> q" "q \<le> b" "round_rat a = a" "round_rat b = b" "\<bar>a\<bar> < 2 ^ 1024" "\<bar>b\<bar> < 2 ^ 1024"
  shows "finite_f64 (fround s q)" and "a \<le> fval (fround s q)" and "fval (fround s q) \<le> b"
proof -
  have ab: "a \<le> round_rat q" "round_rat q \<le> b"
    using round_rat_mono [OF assms(1)] round_rat_mono [OF assms(2)] assms(3,4) by simp_all
  then have lim: "\<bar>round_rat q\<bar> < 2 ^ 1024" using assms(5,6) by linarith
  show "finite_f64 (fround s q)" "a \<le> fval (fround s q)" "fval (fround s q) \<le> b"
    using fround_finite [OF lim] ab by simp_all
qed

lemma f_of_nat_exact [f64_simps]: "n \<le> 2 ^ 53 \<Longrightarrow> f_of_nat n = Fin (of_nat n)"
  by (auto simp: f_of_nat_def fround_def round_rat_nat fzero_def Let_def)

lemma nat_below_64:
  assumes "n < 2 ^ 64"
  shows "of_nat n \<le> (2 :: rat) ^ 64"
  using assms by (metis less_imp_le of_nat_le_iff of_nat_numeral of_nat_power)

lemma f_of_nat_finite:
  assumes "n < 2 ^ 64"
  shows "finite_f64 (f_of_nat n)" and "fval (f_of_nat n) = round_rat (of_nat n)"
    and "0 \<le> fval (f_of_nat n)"
proof -
  have "round_rat (of_nat n) \<le> round_rat (2 powi 64)"
    using nat_below_64 [OF assms] by (intro round_rat_mono) simp
  then have "round_rat (of_nat n) \<le> 2 ^ 64" using round_rat_power [of 64] by simp
  moreover have "0 \<le> round_rat (of_nat n)" by (simp add: round_rat_nonneg)
  ultimately have "\<bar>round_rat (of_nat n)\<bar> \<le> 2 ^ 64" by simp
  also have "\<dots> < (2 :: rat) ^ 1024" by simp
  finally have lim: "\<bar>round_rat (of_nat n)\<bar> < 2 ^ 1024" .
  show "finite_f64 (f_of_nat n)" "fval (f_of_nat n) = round_rat (of_nat n)"
    unfolding f_of_nat_def by (rule fround_finite [OF lim])+
  then show "0 \<le> fval (f_of_nat n)" by (simp add: round_rat_nonneg)
qed

section \<open>Facts about the order\<close>

lemma f_le_Fin [f64_simps, simp]: "f_le (Fin a) (Fin b) \<longleftrightarrow> a \<le> b"
  by (simp add: f_le_def)

lemma f_lt_Fin [f64_simps, simp]: "f_lt (Fin a) (Fin b) \<longleftrightarrow> a < b"
  by (simp add: f_lt_def)

lemma f_le_finite: "finite_f64 x \<Longrightarrow> finite_f64 y \<Longrightarrow> f_le x y \<longleftrightarrow> fval x \<le> fval y"
  by (auto simp: f_le_def finite_fclass)

lemma f_lt_finite: "finite_f64 x \<Longrightarrow> finite_f64 y \<Longrightarrow> f_lt x y \<longleftrightarrow> fval x < fval y"
  by (auto simp: f_lt_def finite_fclass)

lemma f_le_NaN [simp]: "\<not> f_le NaN x" "\<not> f_le x NaN"
  by (simp_all add: f_le_def)

lemma f_lt_NaN [simp]: "\<not> f_lt NaN x" "\<not> f_lt x NaN"
  by (simp_all add: f_lt_def)

lemma f_le_refl: "x \<noteq> NaN \<Longrightarrow> f_le x x"
  by (simp add: f_le_def)

lemma f_le_trans: "f_le x y \<Longrightarrow> f_le y z \<Longrightarrow> f_le x z"
  by (auto simp: f_le_def)

lemma f_lt_iff_not_le: "x \<noteq> NaN \<Longrightarrow> y \<noteq> NaN \<Longrightarrow> f_lt x y \<longleftrightarrow> \<not> f_le y x"
  by (auto simp: f_le_def f_lt_def)

lemma f_lt_imp_le: "f_lt x y \<Longrightarrow> f_le x y"
  by (auto simp: f_le_def f_lt_def)

lemma f_clamp_None: "f_clamp x lo hi = None \<longleftrightarrow> \<not> f_le lo hi"
  by (simp add: f_clamp_def)

lemma f_clamp_range:
  assumes "f_clamp x lo hi = Some y"
  shows "x \<noteq> NaN \<Longrightarrow> f_le lo y \<and> f_le y hi" and "x = NaN \<Longrightarrow> y = NaN"
proof -
  have lohi: "f_le lo hi" and y: "y = (if f_lt x lo then lo else if f_lt hi x then hi else x)"
    using assms by (auto simp: f_clamp_def split: if_splits)
  then have nn: "lo \<noteq> NaN" "hi \<noteq> NaN" by auto
  then show "x \<noteq> NaN \<Longrightarrow> f_le lo y \<and> f_le y hi"
    unfolding y using lohi by (simp add: f_lt_iff_not_le f_le_refl)
  show "x = NaN \<Longrightarrow> y = NaN" unfolding y by simp
qed

lemma f_clamp_id: "f_le lo x \<Longrightarrow> f_le x hi \<Longrightarrow> f_clamp x lo hi = Some x"
  using f_le_trans [of lo x hi] by (cases "x = NaN \<or> lo = NaN \<or> hi = NaN") (auto simp: f_clamp_def f_lt_iff_not_le)

text \<open>NaN is absorbing.\<close>

lemma NaN_absorbs [simp]:
  "f_add NaN x = NaN" "f_add x NaN = NaN" "f_sub NaN x = NaN" "f_sub x NaN = NaN"
  "f_mul NaN x = NaN" "f_mul x NaN = NaN" "f_div NaN x = NaN" "f_div x NaN = NaN"
  by (simp_all add: f_add_def f_sub_def f_mul_def f_div_def)

lemma f_neg_finite [simp]: "finite_f64 (f_neg x) = finite_f64 x" "fval (f_neg x) = - fval x"
  "f_neg x = NaN \<longleftrightarrow> x = NaN"
  by (cases x; simp)+

lemma f_abs_finite [simp]: "finite_f64 (f_abs x) = finite_f64 x" "fval (f_abs x) = \<bar>fval x\<bar>"
  "f_abs x = NaN \<longleftrightarrow> x = NaN"
  by (cases x; simp)+

text \<open>Sums, differences and products of finite numbers may overflow, but are never NaN.\<close>

lemma finite_ops_not_NaN:
  assumes "finite_f64 x" "finite_f64 y"
  shows "f_add x y \<noteq> NaN" and "f_sub x y \<noteq> NaN" and "f_mul x y \<noteq> NaN"
  using assms by (auto simp: f_add_def f_sub_def f_mul_def Let_def)

lemma f_add_right_finite_not_NaN: "x \<noteq> NaN \<Longrightarrow> finite_f64 y \<Longrightarrow> f_add x y \<noteq> NaN"
  by (auto simp: f_add_def)

lemma f_mul_nonzero_not_NaN:
  "finite_f64 x \<Longrightarrow> fval x \<noteq> 0 \<Longrightarrow> y \<noteq> NaN \<Longrightarrow> f_mul x y \<noteq> NaN"
  by (auto simp: f_mul_def Let_def)

section \<open>Literals\<close>

lemma fround_exact:
  assumes "q = of_int m * 2 powi k" "\<bar>m\<bar> \<le> 2 ^ 53" "- 1074 \<le> k" "k \<le> 970" "q \<noteq> 0"
  shows "fround s q = Fin q"
proof -
  have r: "round_rat q = q" using round_rat_exact [OF assms(2,3)] assms(1) by simp
  have "\<bar>q\<bar> = of_int \<bar>m\<bar> * 2 powi k" by (simp add: assms(1) abs_mult)
  also have "\<dots> \<le> 2 powi 53 * 2 powi 970"
  proof (rule mult_mono)
    have "of_int \<bar>m\<bar> \<le> (of_int (2 ^ 53) :: rat)" using assms(2) by (simp only: of_int_le_iff)
    then show "of_int \<bar>m\<bar> \<le> (2 :: rat) powi 53" by simp
    show "(2 :: rat) powi k \<le> 2 powi 970" using assms(4) by (simp only: powi_le_iff)
  qed (simp_all only: less_imp_le [OF powi_pos] of_int_0_le_iff abs_ge_zero)
  also have "\<dots> = 2 powi 1023" by (simp flip: powi_split)
  also have "\<dots> < 2 powi 1024" by (simp only: powi_less_iff)
  also have "\<dots> = 2 ^ 1024" using powi_int [of 1024] by (simp only: of_nat_numeral)
  finally show ?thesis using r assms(5) by (simp add: fround_def)
qed

lemma fround_rne:
  assumes "2 powi e \<le> q" "q < 2 powi (e + 1)" "rne (q / 2 powi (e - 52)) = m"
    and "- 1022 \<le> e" "e \<le> 1022"
  shows "fround s q = Fin (of_int m * 2 powi (e - 52))" and "fround s (- q) = Fin (- (of_int m * 2 powi (e - 52)))"
proof -
  let ?u = "2 powi (e - 52) :: rat"
  have q: "0 < q" using assms(1) powi_pos [of e] by linarith
  have "ulp_exp q = e - 52" using ilog2_unique [OF q assms(1,2)] q assms(4) by (simp add: ulp_exp_def)
  then have r: "round_rat q = of_int m * ?u" using q assms(3) by (simp add: round_rat_def)
  have lo: "2 powi e \<le> round_rat q" using round_rat_mono [OF assms(1)] round_rat_power [of e] assms(4) by simp
  have "round_rat q \<le> 2 powi (e + 1)"
    using round_rat_mono [OF less_imp_le [OF assms(2)]] round_rat_power [of "e + 1"] assms(4) by simp
  also have "\<dots> < 2 powi 1024" using assms(5) by (simp only: powi_less_iff)
  also have "\<dots> = 2 ^ 1024" using powi_int [of 1024] by (simp only: of_nat_numeral)
  finally have hi: "round_rat q < 2 ^ 1024" .
  have "0 < round_rat q" using lo powi_pos [of e] by (rule less_le_trans [rotated])
  then have "fround s q = Fin (round_rat q)" "fround s (- q) = Fin (- round_rat q)"
    using hi unfolding fround_def Let_def by auto
  then show "fround s q = Fin (of_int m * ?u)" "fround s (- q) = Fin (- (of_int m * ?u))" by (simp_all only: r)
qed

lemma fround_eval:
  assumes "2 powi e \<le> q" "q < 2 powi (e + 1)" "\<bar>q / 2 powi (e - 52) - of_int m\<bar> < 1 / 2"
    and "- 1022 \<le> e" "e \<le> 1022"
  shows "fround s q = Fin (of_int m * 2 powi (e - 52))" and "fround s (- q) = Fin (- (of_int m * 2 powi (e - 52)))"
proof -
  have "rne (q / 2 powi (e - 52)) = m" by (rule rne_between) (use assms(3) in linarith)+
  note fround_rne [OF assms(1,2) this assms(4,5)]
  then show "fround s q = Fin (of_int m * 2 powi (e - 52))" "fround s (- q) = Fin (- (of_int m * 2 powi (e - 52)))"
    by this+
qed

lemma flit_0 [simp]: "flit 0 = Fin 0"
  by (simp add: flit_def fround_def fzero_def)

lemma flit_pos: "0 < q \<Longrightarrow> flit q = fround False q"
  by (simp add: flit_def)

lemma flit_neg: "q < 0 \<Longrightarrow> flit q = f_neg (flit (- q))"
  by (auto simp: flit_def fround_def fzero_def finf_def Let_def)

text \<open>The literals of the code, with the doubles they denote.\<close>

lemma flits:
  "flit (1/2) = Fin (1 / 2)"
  "flit (1/10) = Fin (3602879701896397 / 36028797018963968)"
  "flit (3/10) = Fin (5404319552844595 / 18014398509481984)"
  "flit (1/100) = Fin (5764607523034235 / 576460752303423488)"
  "flit (1/1000) = Fin (1152921504606847 / 1152921504606846976)"
  "flit 1 = Fin 1"
  "flit 2 = Fin 2"
  "flit 100 = Fin 100"
  "flit (- 100) = Fin (- 100)"
  using fround_eval [of "-1" "1/2" "4503599627370496" False]
    fround_eval [of "-4" "1/10" "7205759403792794" False]
    fround_eval [of "-2" "3/10" "5404319552844595" False]
    fround_eval [of "-7" "1/100" "5764607523034235" False]
    fround_eval [of "-10" "1/1000" "4611686018427388" False]
    fround_eval [of 0 1 "4503599627370496" False]
    fround_eval [of 1 2 "4503599627370496" False]
    fround_eval [of 6 100 "7036874417766400" False]
  by (simp_all add: flit_pos flit_neg power_int_minus)

section \<open>Order and arithmetic\<close>

text \<open>The quotient of two counts, both rounded, and rounded again, stays between 0 and 1.\<close>

lemma count_ratio:
  assumes "a \<le> n" "0 < n" "n < 2 ^ 64"
  shows "f_le (Fin 0) (f_div (f_of_nat a) (f_of_nat n)) \<and> f_le (f_div (f_of_nat a) (f_of_nat n)) (Fin 1)
    \<and> (a = n \<longrightarrow> f_div (f_of_nat a) (f_of_nat n) = Fin 1)"
proof -
  let ?a = "f_of_nat a" and ?n = "f_of_nat n"
  have "a < 2 ^ 64" using assms(1,3) by simp
  note fa = f_of_nat_finite [OF this] and fn = f_of_nat_finite [OF assms(3)]
  have "(1 :: rat) \<le> of_nat n" using assms(2) by (simp add: Suc_leI)
  then have "round_rat 1 \<le> fval ?n" unfolding fn(2) by (rule round_rat_mono)
  then have pos: "0 < fval ?n" by simp
  have "fval ?a \<le> fval ?n" unfolding fa(2) fn(2) using assms(1) by (intro round_rat_mono) simp
  then have q: "0 \<le> fval ?a / fval ?n" "fval ?a / fval ?n \<le> 1" using fa(3) pos by simp_all
  have "(1 :: rat) < 2 ^ 1024" by simp
  then have b: "\<bar>0 :: rat\<bar> < 2 ^ 1024" "\<bar>1 :: rat\<bar> < 2 ^ 1024" by simp_all
  have r: "round_rat 0 = 0" "round_rat 1 = 1" by simp_all
  have d: "f_div ?a ?n = fround (fsign ?a \<noteq> fsign ?n) (fval ?a / fval ?n)"
    using fa(1) fn(1) pos by (auto simp: f_div_def Let_def)
  have "f_div ?a ?n = Fin 1" if "a = n"
    using d pos fround_exact [of 1 1 0 False] by (simp add: that)
  then show ?thesis
    using fround_between [OF q r b] unfolding d by (auto simp: f_le_finite)
qed

lemma round_rat_error: "\<bar>round_rat q - q\<bar> \<le> 2 powi (ulp_exp q - 1)"
proof (cases "q = 0")
  case False
  let ?u = "2 powi ulp_exp q :: rat"
  have "round_rat q - q = (of_int (rne (q / ?u)) - q / ?u) * ?u"
    using False by (simp add: round_rat_def field_simps)
  then have "\<bar>round_rat q - q\<bar> = \<bar>of_int (rne (q / ?u)) - q / ?u\<bar> * ?u"
    by (simp add: abs_mult)
  also have "\<dots> \<le> 1 / 2 * ?u" by (rule mult_right_mono [OF rne_dist]) simp
  also have "\<dots> = 2 powi (ulp_exp q - 1)" using powi_split [of "ulp_exp q" "- 1"] by simp
  finally show ?thesis .
qed simp

lemma fround_mono: "q \<le> q' \<Longrightarrow> f_le (fround s q) (fround s' q')"
  using round_rat_mono [of q q'] by (auto simp: fround_def fzero_def finf_def Let_def f_le_def)

lemma f_add_comm: "f_add x y = f_add y x"
  by (cases x; cases y) (simp_all add: f_add_def add.commute)

lemma f_le_inf [simp]: "f_le NegInf x \<longleftrightarrow> x \<noteq> NaN" "f_le x PosInf \<longleftrightarrow> x \<noteq> NaN"
  by (cases x; simp add: f_le_def)+

lemma f_le_from_inf: "f_le PosInf x \<Longrightarrow> x = PosInf" "f_le x NegInf \<Longrightarrow> x = NegInf"
  by (cases x; simp add: f_le_def)+

lemma f_le_iff:
  "f_le x y \<longleftrightarrow> (x = NegInf \<and> y \<noteq> NaN) \<or> (y = PosInf \<and> x \<noteq> NaN)
     \<or> (finite_f64 x \<and> finite_f64 y \<and> fval x \<le> fval y)"
  by (cases x; cases y) (simp_all add: f_le_def)

lemma fround_nonneg: "0 \<le> q \<Longrightarrow> f_le (Fin 0) (fround s q)"
  using fround_mono [of 0 q False s] by (simp add: fround_def [of False 0] fzero_def)

lemma f_add_inf:
  "f_add x NegInf \<noteq> NaN \<Longrightarrow> f_add x NegInf = NegInf" "f_add NegInf x \<noteq> NaN \<Longrightarrow> f_add NegInf x = NegInf"
  "f_add x PosInf \<noteq> NaN \<Longrightarrow> f_add x PosInf = PosInf" "f_add PosInf x \<noteq> NaN \<Longrightarrow> f_add PosInf x = PosInf"
  by (cases x; simp add: f_add_def)+

lemma f_add_finite: "finite_f64 x \<Longrightarrow> finite_f64 y \<Longrightarrow> f_add x y = fround (x = NegZero \<and> y = NegZero) (fval x + fval y)"
  by (auto simp: f_add_def)

lemma f_add_mono:
  assumes "f_le x x'" "f_le y y'" "f_add x y \<noteq> NaN" "f_add x' y' \<noteq> NaN"
  shows "f_le (f_add x y) (f_add x' y')"
proof -
  consider "x = NegInf" | "x' = PosInf" | "y = NegInf" | "y' = PosInf"
    | "finite_f64 x \<and> finite_f64 x' \<and> fval x \<le> fval x' \<and> finite_f64 y \<and> finite_f64 y' \<and> fval y \<le> fval y'"
    using assms(1,2) unfolding f_le_iff by blast
  then show ?thesis
    by cases (use assms(3,4) in \<open>auto simp: f_add_inf f_add_finite intro!: fround_mono\<close>)
qed

lemma f_mul_finite: "finite_f64 x \<Longrightarrow> finite_f64 y \<Longrightarrow> f_mul x y = fround (fsign x \<noteq> fsign y) (fval x * fval y)"
  by (auto simp: f_mul_def Let_def)

lemma f_mul_inf:
  assumes "finite_f64 k" "0 < fval k"
  shows "f_mul k NegInf = NegInf" "f_mul k PosInf = PosInf" "f_mul k x = NaN \<longleftrightarrow> x = NaN"
  using assms by (cases k; auto simp: f_mul_def finf_def Let_def)+

lemma f_mul_mono:
  assumes "finite_f64 k" "0 < fval k" "f_le x x'"
  shows "f_le (f_mul k x) (f_mul k x')"
proof -
  consider "x = NegInf \<and> x' \<noteq> NaN" | "x' = PosInf \<and> x \<noteq> NaN" | "finite_f64 x \<and> finite_f64 x' \<and> fval x \<le> fval x'"
    using assms(3) unfolding f_le_iff by blast
  then show ?thesis
  proof cases
    case 3
    with assms(2) have "fval k * fval x \<le> fval k * fval x'" by (simp add: mult_left_mono)
    with 3 assms(1) show ?thesis by (simp add: f_mul_finite fround_mono)
  qed (simp_all add: f_mul_inf [OF assms(1,2)])
qed

lemma f_neg_mono: "f_le x y \<Longrightarrow> f_le (f_neg y) (f_neg x)"
  by (cases x; cases y) (auto simp: f_le_def)

lemma f_clamp_mono:
  assumes "f_le x y" "f_clamp x lo hi = Some a" "f_clamp y lo hi = Some b"
  shows "f_le a b"
proof -
  have lohi: "f_le lo hi" using assms(2) by (simp add: f_clamp_def split: if_splits)
  then have nn: "x \<noteq> NaN" "y \<noteq> NaN" "lo \<noteq> NaN" "hi \<noteq> NaN" using assms(1) by auto
  have a: "a = (if f_le lo x then (if f_le x hi then x else hi) else lo)"
    and b: "b = (if f_le lo y then (if f_le y hi then y else hi) else lo)"
    using assms(2,3) lohi nn by (auto simp: f_clamp_def f_lt_iff_not_le)
  show ?thesis
    unfolding a b using assms(1) lohi nn by (auto intro: f_le_refl f_le_trans dest: f_lt_imp_le simp flip: f_lt_iff_not_le)
qed

lemma f_sq_nonneg: "x \<noteq> NaN \<Longrightarrow> f_le (Fin 0) (f_sq x)"
  by (cases x) (simp_all add: f_sq_def f_mul_finite fround_nonneg, simp_all add: f_mul_def finf_def)

lemma f_le_0_iff: "f_le (Fin 0) x \<longleftrightarrow> x = PosInf \<or> (finite_f64 x \<and> 0 \<le> fval x)"
  by (cases x) (simp_all add: f_le_def)

lemma f_add_nonneg:
  assumes "f_le (Fin 0) x" "f_le (Fin 0) y"
  shows "f_le (Fin 0) (f_add x y)"
proof -
  consider "x = PosInf" | "y = PosInf" | "finite_f64 x \<and> finite_f64 y \<and> 0 \<le> fval x + fval y"
    using assms unfolding f_le_0_iff by auto
  then show ?thesis
    using assms by cases (auto simp: f_le_0_iff f_add_finite f_add_def intro!: fround_nonneg [unfolded f_le_0_iff])
qed

lemma f_div_nonneg:
  assumes "f_le (Fin 0) x" "finite_f64 y" "0 < fval y"
  shows "f_le (Fin 0) (f_div x y)"
proof -
  have y: "\<not> fsign y" "y \<noteq> NaN" using assms(2,3) by (cases y; simp)+
  consider "x = PosInf" | "finite_f64 x \<and> 0 \<le> fval x" using assms(1) unfolding f_le_iff by auto
  then show ?thesis
    using assms y by cases (auto simp: f_div_def finf_def Let_def intro!: fround_nonneg)
qed

lemma foldl_f_add_finite_not_NaN: "a \<noteq> NaN \<Longrightarrow> \<forall>x \<in> set xs. finite_f64 x \<Longrightarrow> foldl f_add a xs \<noteq> NaN"
  by (induction xs arbitrary: a) (auto simp: f_add_right_finite_not_NaN)

lemma foldl_f_add_nonneg: "f_le (Fin 0) a \<Longrightarrow> \<forall>x \<in> set xs. f_le (Fin 0) x \<Longrightarrow> f_le (Fin 0) (foldl f_add a xs)"
  by (induction xs arbitrary: a) (auto simp: f_add_nonneg)

section \<open>Magnitudes\<close>

text \<open>Finite numbers of magnitude at most \<open>2 powi k\<close>: sums and products stay finite.\<close>

definition mag_le :: "int \<Rightarrow> f64 \<Rightarrow> bool" where
  "mag_le k x \<longleftrightarrow> finite_f64 x \<and> \<bar>fval x\<bar> \<le> 2 powi k"

lemma magD: "mag_le k x \<Longrightarrow> finite_f64 x" "mag_le k x \<Longrightarrow> \<bar>fval x\<bar> \<le> 2 powi k"
  by (simp_all add: mag_le_def)

lemma mag_not_NaN: "mag_le k x \<Longrightarrow> x \<noteq> NaN"
  by (auto simp: mag_le_def)

lemma mag_mono: "mag_le j x \<Longrightarrow> j \<le> k \<Longrightarrow> mag_le k x"
  using powi_le_iff [of j k] unfolding mag_le_def by (blast intro: order.trans)

lemma mag_fround:
  assumes "\<bar>q\<bar> \<le> 2 powi k" "- 1074 \<le> k" "k \<le> 1023"
  shows "mag_le k (fround s q)"
proof -
  have "2 powi k < (2 :: rat) powi 1024" using assms(3) by (simp only: powi_less_iff)
  also have "\<dots> = 2 ^ 1024" using powi_int [of 1024] by (simp only: of_nat_numeral)
  finally have k: "2 powi k < (2 :: rat) ^ 1024" .
  have r: "round_rat (2 powi k) = 2 powi k" "round_rat (- (2 powi k)) = - (2 powi k)"
    using round_rat_power [OF assms(2)] by simp_all
  have a: "\<bar>2 powi k\<bar> < (2 :: rat) ^ 1024" "\<bar>- (2 powi k)\<bar> < (2 :: rat) ^ 1024"
    using k by (simp_all only: abs_minus_cancel abs_of_pos [OF powi_pos])
  have b: "- (2 powi k) \<le> q" "q \<le> 2 powi k" using assms(1) by (simp_all only: abs_le_iff) linarith+
  note fb = fround_between [OF b r(2,1) a(2,1), of s]
  then show ?thesis unfolding mag_le_def abs_le_iff by (metis minus_le_iff)
qed

lemma mag_add:
  assumes "mag_le k x" "mag_le k y" "0 \<le> k" "k \<le> 1022"
  shows "mag_le (k + 1) (f_add x y)"
proof -
  have "\<bar>fval x + fval y\<bar> \<le> 2 powi k + 2 powi k"
    using magD(2) [OF assms(1)] magD(2) [OF assms(2)] abs_triangle_ineq [of "fval x" "fval y"] by linarith
  then have "\<bar>fval x + fval y\<bar> \<le> 2 powi (k + 1)" by (simp add: powi_split)
  then have "mag_le (k + 1) (fround s (fval x + fval y))" for s
    using assms(3,4) by (intro mag_fround) simp_all
  then show ?thesis using magD(1) [OF assms(1)] magD(1) [OF assms(2)] by (simp add: f_add_finite)
qed

lemma mag_neg [simp]: "mag_le k (f_neg x) \<longleftrightarrow> mag_le k x"
  by (simp add: mag_le_def)

lemma mag_sub:
  "mag_le k x \<Longrightarrow> mag_le k y \<Longrightarrow> 0 \<le> k \<Longrightarrow> k \<le> 1022 \<Longrightarrow> mag_le (k + 1) (f_sub x y)"
  by (simp add: f_sub_def mag_add)

lemma mag_mul:
  assumes "mag_le j x" "mag_le k y" "- 1074 \<le> j + k" "j + k \<le> 1023"
  shows "mag_le (j + k) (f_mul x y)"
proof -
  have "\<bar>fval x * fval y\<bar> \<le> 2 powi (j + k)"
    unfolding powi_split abs_mult by (intro mult_mono) (use assms(1,2) in \<open>simp_all add: mag_le_def\<close>)
  then have "mag_le (j + k) (fround s (fval x * fval y))" for s
    using assms(3,4) by (intro mag_fround)
  then show ?thesis using magD(1) [OF assms(1)] magD(1) [OF assms(2)] by (simp add: f_mul_finite)
qed

lemma mag_between: "mag_le k x \<Longrightarrow> mag_le k y \<Longrightarrow> f_le x z \<Longrightarrow> f_le z y \<Longrightarrow> mag_le k z"
  unfolding mag_le_def f_le_iff by auto

end
