(* ===== verification/Gossip.thy ===== *)
theory Gossip
  imports Prelude F64
begin

text \<open>
  Cluster membership (\<open>kineplex-net/src/lib.rs\<close>, \<open>kineplex-net/src/gossip.rs\<close>): node
  identities and addresses, the member table with its events, and the merge of gossip messages.
  \<open>now\<close> is the reading of the clock an operation makes. Proved: a merge keeps, for every node,
  an entry with the latest heartbeat among those it has seen, so that members which received the
  same entries in any order and any batches agree; and what this rule does to failures and
  departures, which are recorded without a new heartbeat.
\<close>

section \<open>Identities and addresses\<close>

datatype net_node_id = NetNodeId uuid

record network_address =
  na_host :: string
  na_port :: u16

definition network_address_new :: "string \<Rightarrow> u16 \<Rightarrow> network_address" where
  "network_address_new host port = \<lparr>na_host = host, na_port = port\<rparr>"

definition network_address_display :: "network_address \<Rightarrow> string" where
  "network_address_display a = na_host a @ '':'' @ show_word (na_port a)"

datatype connection_status = Connected | Disconnected | Connecting | ConnectionFailed string

section \<open>The member table\<close>

record node_info =
  ni_id :: net_node_id
  ni_address :: network_address
  ni_status :: connection_status
  ni_last_heartbeat :: time
  ni_incarnation :: u32
  ni_metadata :: "string \<rightharpoonup> string"

definition node_info_new :: "time \<Rightarrow> net_node_id \<Rightarrow> network_address \<Rightarrow> node_info" where
  "node_info_new now nid addr = \<lparr>ni_id = nid, ni_address = addr, ni_status = Connected,
     ni_last_heartbeat = now, ni_incarnation = 0, ni_metadata = Map.empty\<rparr>"

text \<open>The incarnation may overflow (\<open>None\<close> is the panic).\<close>

definition update_heartbeat :: "bool \<Rightarrow> time \<Rightarrow> node_info \<Rightarrow> node_info option" where
  "update_heartbeat checks now n =
     map_option (\<lambda>i. n\<lparr>ni_last_heartbeat := now, ni_incarnation := i\<rparr>) (add_chk checks (ni_incarnation n) 1)"

definition is_alive :: "node_info \<Rightarrow> bool" where
  "is_alive n \<longleftrightarrow> ni_status n = Connected"

datatype membership_event = Join node_info | Leave net_node_id | Failure net_node_id | Rejoin node_info

record gossip_message =
  gm_source :: net_node_id
  gm_target :: "net_node_id option"
  gm_members :: "node_info list"
  gm_timestamp :: time

definition gossip_message_new :: "time \<Rightarrow> net_node_id \<Rightarrow> gossip_message" where
  "gossip_message_new now source = \<lparr>gm_source = source, gm_target = None, gm_members = [], gm_timestamp = now\<rparr>"

definition with_members :: "node_info list \<Rightarrow> gossip_message \<Rightarrow> gossip_message" where
  "with_members ms g = g\<lparr>gm_members := ms\<rparr>"

record gossip_protocol =
  gp_self_node :: net_node_id
  gp_members :: "net_node_id \<rightharpoonup> node_info"
  gp_pending_events :: "membership_event list"
  gp_protocol_version :: string

definition gossip_protocol_new :: "time \<Rightarrow> net_node_id \<Rightarrow> gossip_protocol" where
  "gossip_protocol_new now self =
     \<lparr>gp_self_node = self, gp_members = [self \<mapsto> node_info_new now self (network_address_new ''localhost'' 0)],
      gp_pending_events = [], gp_protocol_version = ''1.0.0''\<rparr>"

definition push_event :: "membership_event \<Rightarrow> gossip_protocol \<Rightarrow> gossip_protocol" where
  "push_event ev p = p\<lparr>gp_pending_events := gp_pending_events p @ [ev]\<rparr>"

definition register_node :: "node_info \<Rightarrow> gossip_protocol \<Rightarrow> gossip_protocol" where
  "register_node n p = push_event (Join n) (p\<lparr>gp_members := (gp_members p)(ni_id n \<mapsto> n)\<rparr>)"

definition handle_leave :: "net_node_id \<Rightarrow> gossip_protocol \<Rightarrow> gossip_protocol" where
  "handle_leave nid p =
     (case gp_members p nid of
        None \<Rightarrow> p
      | Some _ \<Rightarrow> push_event (Leave nid) (p\<lparr>gp_members := (gp_members p)(nid := None)\<rparr>))"

definition handle_failure :: "net_node_id \<Rightarrow> gossip_protocol \<Rightarrow> gossip_protocol" where
  "handle_failure nid p =
     (case gp_members p nid of
        None \<Rightarrow> p
      | Some n \<Rightarrow> push_event (Failure nid) (p\<lparr>gp_members := (gp_members p)(nid \<mapsto> n\<lparr>ni_status := Disconnected\<rparr>)\<rparr>))"

definition handle_rejoin :: "node_info \<Rightarrow> gossip_protocol \<Rightarrow> gossip_protocol" where
  "handle_rejoin n p = push_event (Rejoin n) (p\<lparr>gp_members := (gp_members p)(ni_id n \<mapsto> n)\<rparr>)"

definition get_alive_members :: "(net_node_id \<times> node_info) list \<Rightarrow> gossip_protocol \<Rightarrow> node_info list" where
  "get_alive_members es p = filter (\<lambda>n. is_alive n \<and> ni_id n \<noteq> gp_self_node p) (map snd es)"

definition get_all_members :: "(net_node_id \<times> node_info) list \<Rightarrow> node_info list" where
  "get_all_members es = map snd es"

text \<open>One entry of a message.\<close>

definition merge_member :: "node_info \<Rightarrow> (net_node_id \<rightharpoonup> node_info) \<Rightarrow> (net_node_id \<rightharpoonup> node_info)" where
  "merge_member n m =
     (case m (ni_id n) of
        Some existing \<Rightarrow>
          (if ni_last_heartbeat existing < ni_last_heartbeat n then m(ni_id n \<mapsto> n) else m)
      | None \<Rightarrow> m(ni_id n \<mapsto> n))"

definition process_gossip :: "gossip_message \<Rightarrow> gossip_protocol \<Rightarrow> gossip_protocol" where
  "process_gossip g p = p\<lparr>gp_members := fold merge_member (gm_members g) (gp_members p)\<rparr>"

definition get_events :: "gossip_protocol \<Rightarrow> gossip_protocol \<times> membership_event list" where
  "get_events p = (p\<lparr>gp_pending_events := []\<rparr>, gp_pending_events p)"

definition convergence :: "(net_node_id \<times> node_info) list \<Rightarrow> f64" where
  "convergence es =
     (let alive = length (filter is_alive (map snd es)); total = length es
      in if total = 0 then flit 1 else f_div (f_of_nat alive) (f_of_nat total))"

definition protocol_version :: "gossip_protocol \<Rightarrow> string" where
  "protocol_version p = gp_protocol_version p"

section \<open>Well-formed tables\<close>

definition members_ok :: "(net_node_id \<rightharpoonup> node_info) \<Rightarrow> bool" where
  "members_ok m \<longleftrightarrow> (\<forall>k n. m k = Some n \<longrightarrow> ni_id n = k)"

named_theorems gossip_defs \<open>the operations on the member table\<close>

lemmas gossip_ops [gossip_defs] = push_event_def register_node_def handle_leave_def handle_failure_def
  handle_rejoin_def process_gossip_def get_events_def

lemma members_ok_new: "members_ok (gp_members (gossip_protocol_new now self))"
  by (simp add: members_ok_def gossip_protocol_new_def node_info_new_def)

lemma merge_member_ok: "members_ok m \<Longrightarrow> members_ok (merge_member n m)"
  by (auto simp: members_ok_def merge_member_def split: option.splits)

lemma members_ok_ops:
  assumes "members_ok (gp_members p)"
  shows "members_ok (gp_members (register_node n p))" "members_ok (gp_members (handle_leave nid p))"
    "members_ok (gp_members (handle_failure nid p))" "members_ok (gp_members (handle_rejoin n p))"
    "members_ok (gp_members (process_gossip g p))"
proof -
  have "members_ok (fold merge_member ns m)" if "members_ok m" for ns m
    using that by (induction ns arbitrary: m) (auto simp: merge_member_ok)
  then show "members_ok (gp_members (process_gossip g p))" using assms by (simp add: process_gossip_def)
qed (use assms in \<open>auto simp: members_ok_def gossip_defs split: option.splits\<close>)

section \<open>Merging gossip\<close>

text \<open>The entries a node may have for \<open>k\<close>: its own, and those it is sent.\<close>

definition candidates :: "(net_node_id \<rightharpoonup> node_info) \<Rightarrow> node_info set \<Rightarrow> net_node_id \<Rightarrow> node_info set" where
  "candidates m N k = {n. m k = Some n} \<union> {n \<in> N. ni_id n = k}"

definition newest :: "node_info option \<Rightarrow> node_info set \<Rightarrow> bool" where
  "newest r C \<longleftrightarrow> (case r of None \<Rightarrow> C = {}
     | Some n \<Rightarrow> n \<in> C \<and> (\<forall>c \<in> C. ni_last_heartbeat c \<le> ni_last_heartbeat n))"

lemma merge_member_lookup:
  "merge_member n m k =
     (if k = ni_id n then (case m k of None \<Rightarrow> Some n
        | Some e \<Rightarrow> if ni_last_heartbeat e < ni_last_heartbeat n then Some n else Some e) else m k)"
  by (auto simp: merge_member_def split: option.splits)

lemma fold_merge_newest: "newest (fold merge_member ns m k) (candidates m (set ns) k)"
proof (induction ns arbitrary: m)
  case Nil
  then show ?case by (auto simp: newest_def candidates_def split: option.splits)
next
  case (Cons n ns)
  from Cons.IH [of "merge_member n m"] show ?case
    by (auto simp: newest_def candidates_def merge_member_lookup split: option.splits if_splits)
qed

lemma fold_merge_keeps:
  "m k = Some e \<Longrightarrow> \<forall>n \<in> set ns. ni_id n = k \<longrightarrow> ni_last_heartbeat n \<le> ni_last_heartbeat e \<Longrightarrow>
   fold merge_member ns m k = Some e"
proof (induction ns arbitrary: m)
  case (Cons n ns)
  have "merge_member n m k = Some e" using Cons.prems by (auto simp: merge_member_lookup)
  with Cons show ?case by simp
qed simp

text \<open>
  C19: After a message the table holds, for every node, an entry with the latest heartbeat among
  its own entry and those of the message, no entry when there are none, and its own entry when
  nothing in the message is newer; the message raises no membership event.
\<close>

theorem process_gossip_keeps_newest:
  "newest (gp_members (process_gossip g p) k) (candidates (gp_members p) (set (gm_members g)) k)
   \<and> (\<forall>e. gp_members p k = Some e \<longrightarrow>
        (\<forall>n \<in> set (gm_members g). ni_id n = k \<longrightarrow> ni_last_heartbeat n \<le> ni_last_heartbeat e) \<longrightarrow>
        gp_members (process_gossip g p) k = Some e)
   \<and> gp_pending_events (process_gossip g p) = gp_pending_events p"
  using fold_merge_newest fold_merge_keeps by (simp add: process_gossip_def)

theorem process_gossip_keeps_newest_witness:
  "let old = node_info_new 5 (NetNodeId 1) (network_address_new ''a'' 1);
       p = register_node old (gossip_protocol_new 0 (NetNodeId 9));
       g = with_members [node_info_new 4 (NetNodeId 1) (network_address_new ''b'' 2)] (gossip_message_new 6 (NetNodeId 2))
   in gp_members (process_gossip g p) (NetNodeId 1) = Some old"
proof -
  let ?old = "node_info_new 5 (NetNodeId 1) (network_address_new ''a'' 1)"
  let ?p = "register_node ?old (gossip_protocol_new 0 (NetNodeId 9))"
  let ?g = "with_members [node_info_new 4 (NetNodeId 1) (network_address_new ''b'' 2)] (gossip_message_new 6 (NetNodeId 2))"
  have "gp_members ?p (NetNodeId 1) = Some ?old" by (simp add: gossip_defs node_info_new_def)
  moreover have "\<forall>n \<in> set (gm_members ?g). ni_id n = NetNodeId 1 \<longrightarrow> ni_last_heartbeat n \<le> ni_last_heartbeat ?old"
    by (simp add: with_members_def node_info_new_def)
  ultimately show ?thesis
    using process_gossip_keeps_newest [of ?g ?p "NetNodeId 1"] by (simp only: Let_def)
qed

text \<open>
  Entries are consistent when the heartbeat identifies the entry of a node: two different
  entries of one node never carry the same heartbeat.
\<close>

definition consistent :: "node_info set \<Rightarrow> bool" where
  "consistent N \<longleftrightarrow> (\<forall>a \<in> N. \<forall>b \<in> N. ni_id a = ni_id b \<longrightarrow> ni_last_heartbeat a = ni_last_heartbeat b \<longrightarrow> a = b)"

definition known_entries :: "gossip_protocol \<Rightarrow> gossip_message list \<Rightarrow> node_info set" where
  "known_entries p gs = ran (gp_members p) \<union> \<Union> (set ` gm_members ` set gs)"

lemma fold_process_gossip:
  "gp_members (fold process_gossip gs p) = fold merge_member (concat (map gm_members gs)) (gp_members p)"
  by (induction gs arbitrary: p) (simp_all add: process_gossip_def)

lemma candidates_known:
  assumes "members_ok m"
  shows "candidates m N k = {n \<in> ran m \<union> N. ni_id n = k}"
  using assms by (auto simp: candidates_def members_ok_def ran_def)

lemma newest_unique:
  assumes "newest r C" "newest r' C" "consistent C" "\<forall>a \<in> C. \<forall>b \<in> C. ni_id a = ni_id b"
  shows "r = r'"
proof (cases "C = {}")
  case True
  with assms(1,2) show ?thesis by (simp add: newest_def split: option.splits)
next
  case False
  obtain a where a: "r = Some a" "a \<in> C" "\<forall>c \<in> C. ni_last_heartbeat c \<le> ni_last_heartbeat a"
    using assms(1) False by (cases r) (auto simp: newest_def)
  obtain b where b: "r' = Some b" "b \<in> C" "\<forall>c \<in> C. ni_last_heartbeat c \<le> ni_last_heartbeat b"
    using assms(2) False by (cases r') (auto simp: newest_def)
  have ab: "r = Some a" "r' = Some b" "a \<in> C" "b \<in> C"
      "ni_last_heartbeat b \<le> ni_last_heartbeat a" "ni_last_heartbeat a \<le> ni_last_heartbeat b"
    using a b by simp_all
  then have "ni_last_heartbeat a = ni_last_heartbeat b" by simp
  with ab(3,4) assms(3,4) have "a = b" unfolding consistent_def by blast
  with ab(1,2) show ?thesis by simp
qed

text \<open>
  Gossip converges: two members that know the same entries, each from its own table and
  the messages it received, in whatever order, batches and multiplicity, hold the same table
  afterwards, provided the entries are consistent.
\<close>

theorem gossip_converges:
  assumes "members_ok (gp_members p)" and "members_ok (gp_members q)"
    and "known_entries p gs = known_entries q hs" and "consistent (known_entries p gs)"
  shows "gp_members (fold process_gossip gs p) = gp_members (fold process_gossip hs q)"
proof
  fix k
  have "candidates (gp_members p) (set (concat (map gm_members gs))) k = {n \<in> known_entries p gs. ni_id n = k}"
    "candidates (gp_members q) (set (concat (map gm_members hs))) k = {n \<in> known_entries q hs. ni_id n = k}"
    using candidates_known [OF assms(1)] candidates_known [OF assms(2)] by (auto simp: known_entries_def)
  moreover have "consistent {n \<in> known_entries p gs. ni_id n = k}"
    using assms(4) by (auto simp: consistent_def)
  ultimately show "gp_members (fold process_gossip gs p) k = gp_members (fold process_gossip hs q) k"
    unfolding fold_process_gossip using fold_merge_newest assms(3)
    by (intro newest_unique [where C = "{n \<in> known_entries p gs. ni_id n = k}"]) (metis, metis, simp_all)
qed

theorem gossip_converges_witness:
  "let a = node_info_new 5 (NetNodeId 1) (network_address_new ''a'' 1);
       b = node_info_new 7 (NetNodeId 1) (network_address_new ''b'' 2);
       p = \<lparr>gp_self_node = NetNodeId 1, gp_members = [NetNodeId 1 \<mapsto> a], gp_pending_events = [], gp_protocol_version = ''1.0.0''\<rparr>;
       q = p\<lparr>gp_members := [NetNodeId 1 \<mapsto> b]\<rparr>;
       msg = (\<lambda>n. with_members [n] (gossip_message_new 6 (NetNodeId 2)))
   in gp_members (fold process_gossip [msg b, msg b] p) = gp_members (fold process_gossip [msg a] q)"
proof -
  let ?a = "node_info_new 5 (NetNodeId 1) (network_address_new ''a'' 1)"
  let ?b = "node_info_new 7 (NetNodeId 1) (network_address_new ''b'' 2)"
  let ?p = "\<lparr>gp_self_node = NetNodeId 1, gp_members = [NetNodeId 1 \<mapsto> ?a], gp_pending_events = [], gp_protocol_version = ''1.0.0''\<rparr>"
  let ?q = "?p\<lparr>gp_members := [NetNodeId 1 \<mapsto> ?b]\<rparr>"
  let ?msg = "\<lambda>n. with_members [n] (gossip_message_new 6 (NetNodeId 2))"
  have ids: "ni_id ?a = NetNodeId 1" "ni_id ?b = NetNodeId 1" "ni_last_heartbeat ?a \<noteq> ni_last_heartbeat ?b"
    by (simp_all add: node_info_new_def)
  have known: "known_entries ?p [?msg ?b, ?msg ?b] = {?a, ?b}" "known_entries ?q [?msg ?a] = {?a, ?b}"
    by (auto simp: known_entries_def with_members_def)
  have "members_ok (gp_members ?p)" "members_ok (gp_members ?q)" using ids by (simp_all add: members_ok_def)
  moreover have "known_entries ?p [?msg ?b, ?msg ?b] = known_entries ?q [?msg ?a]" unfolding known ..
  moreover have "consistent (known_entries ?p [?msg ?b, ?msg ?b])"
    unfolding known consistent_def by (simp add: node_info_new_def)
  ultimately show ?thesis unfolding Let_def by (rule gossip_converges)
qed

section \<open>Failures and departures under gossip\<close>

lemma fold_merge_single:
  "(\<And>n. n \<in> set ns \<Longrightarrow> ni_id n = k \<Longrightarrow> n = info) \<Longrightarrow> info \<in> set ns \<Longrightarrow> ni_id info = k \<Longrightarrow> m k = None \<Longrightarrow>
   fold merge_member ns m k = Some info"
proof -
  assume u: "\<And>n. n \<in> set ns \<Longrightarrow> ni_id n = k \<Longrightarrow> n = info" and i: "info \<in> set ns" "ni_id info = k" and m: "m k = None"
  have "candidates m (set ns) k = {info}"
    unfolding candidates_def m option.distinct using u i by blast
  with fold_merge_newest [of ns m k] show ?thesis by (cases "fold merge_member ns m k") (auto simp: newest_def)
qed

text \<open>What a member knows of \<open>k\<close> after it has received a complete member table.\<close>

lemma merge_table:
  assumes "members_ok m" "iterates es m" "m k = Some n"
  shows "fold merge_member (get_all_members es) mq k =
    (case mq k of None \<Rightarrow> Some n | Some own \<Rightarrow> if ni_last_heartbeat n \<le> ni_last_heartbeat own then Some own else Some n)"
proof -
  have sent: "(c \<in> set (get_all_members es) \<and> ni_id c = k) \<longleftrightarrow> c = n" for c
  proof -
    have "c \<in> set (get_all_members es) \<longleftrightarrow> (\<exists>k'. m k' = Some c)"
      using iterates_lookup [OF assms(2)] by (force simp: get_all_members_def)
    then show ?thesis using assms(1,3) by (auto simp: members_ok_def)
  qed
  then have only: "candidates mq (set (get_all_members es)) k = {c. mq k = Some c} \<union> {n}"
    unfolding candidates_def by blast
  have new: "newest (fold merge_member (get_all_members es) mq k) ({c. mq k = Some c} \<union> {n})"
    using fold_merge_newest [of "get_all_members es" mq k] unfolding only .
  show ?thesis
  proof (cases "\<exists>own. mq k = Some own \<and> ni_last_heartbeat n \<le> ni_last_heartbeat own")
    case True
    then obtain own where own: "mq k = Some own" "ni_last_heartbeat n \<le> ni_last_heartbeat own" by blast
    have "\<forall>c \<in> set (get_all_members es). ni_id c = k \<longrightarrow> ni_last_heartbeat c \<le> ni_last_heartbeat own"
      using sent own(2) by metis
    with own(1) have "fold merge_member (get_all_members es) mq k = Some own" by (rule fold_merge_keeps)
    then show ?thesis using own by simp
  next
    case False
    then show ?thesis using new by (auto simp: newest_def split: option.splits)
  qed
qed

text \<open>
  C40: Detecting a failure leaves the heartbeat of the failed node's entry as it was, and that
  decides whom gossip tells of it. A member that receives the complete table of the member that
  detected the failure keeps its own entry for the failed node when that has the same or a newer
  heartbeat, and takes the \<open>Disconnected\<close> entry when it has an older one or none. In particular
  a member that had received the detecting member's table before the failure keeps what it then held:
  gossip that has brought two tables together does not spread the failure between them.
\<close>

theorem failure_reaches_older_entries:
  assumes "members_ok (gp_members p)" and "gp_members p k = Some info"
    and "iterates before (gp_members p)" and "iterates after (gp_members (handle_failure k p))"
    and "send = (\<lambda>es. process_gossip (with_members (get_all_members es) (gossip_message_new now src)))"
  shows "gp_members (send after q) k =
      (case gp_members q k of
         None \<Rightarrow> Some (info\<lparr>ni_status := Disconnected\<rparr>)
       | Some own \<Rightarrow> if ni_last_heartbeat info \<le> ni_last_heartbeat own then Some own
           else Some (info\<lparr>ni_status := Disconnected\<rparr>))
    \<and> gp_members (send after (send before q)) k = gp_members (send before q) k"
proof -
  have bad: "gp_members (handle_failure k p) k = Some (info\<lparr>ni_status := Disconnected\<rparr>)"
    using assms(2) by (simp add: handle_failure_def push_event_def)
  have send: "gp_members (send es r) = fold merge_member (get_all_members es) (gp_members r)" for es r
    by (simp add: assms(5) process_gossip_def with_members_def)
  note after = merge_table [OF members_ok_ops(3) [OF assms(1)] assms(4) bad]
  note before = merge_table [OF assms(1,3,2)]
  show ?thesis unfolding send after before by (auto split: option.splits)
qed

theorem failure_reaches_older_entries_witness:
  "let n = node_info_new 5 (NetNodeId 1) (network_address_new ''a'' 1);
       p = \<lparr>gp_self_node = NetNodeId 2, gp_members = [NetNodeId 1 \<mapsto> n], gp_pending_events = [], gp_protocol_version = ''1.0.0''\<rparr>;
       q = \<lparr>gp_self_node = NetNodeId 3, gp_members = Map.empty, gp_pending_events = [], gp_protocol_version = ''1.0.0''\<rparr>;
       send = (\<lambda>es. process_gossip (with_members (get_all_members es) (gossip_message_new 9 (NetNodeId 2))));
       after = [(NetNodeId 1, n\<lparr>ni_status := Disconnected\<rparr>)]
   in gp_members (send after q) (NetNodeId 1) = Some (n\<lparr>ni_status := Disconnected\<rparr>)
    \<and> gp_members (send after p) (NetNodeId 1) = Some n
    \<and> gp_members (send after (send [(NetNodeId 1, n)] q)) (NetNodeId 1) = Some n"
proof -
  let ?n = "node_info_new 5 (NetNodeId 1) (network_address_new ''a'' 1)"
  let ?p = "\<lparr>gp_self_node = NetNodeId 2, gp_members = [NetNodeId 1 \<mapsto> ?n], gp_pending_events = [], gp_protocol_version = ''1.0.0''\<rparr>"
  let ?q = "\<lparr>gp_self_node = NetNodeId 3, gp_members = Map.empty, gp_pending_events = [], gp_protocol_version = ''1.0.0''\<rparr>"
  let ?after = "[(NetNodeId 1, ?n\<lparr>ni_status := Disconnected\<rparr>)]"
  have ok: "members_ok (gp_members ?p)" "gp_members ?p (NetNodeId 1) = Some ?n"
    by (simp_all add: members_ok_def node_info_new_def)
  have "gp_members (handle_failure (NetNodeId 1) ?p) = [NetNodeId 1 \<mapsto> ?n\<lparr>ni_status := Disconnected\<rparr>]"
    by (simp add: handle_failure_def push_event_def)
  then have it: "iterates [(NetNodeId 1, ?n)] (gp_members ?p)" "iterates ?after (gp_members (handle_failure (NetNodeId 1) ?p))"
    by (simp_all add: iterates_def)
  note reach = failure_reaches_older_entries [OF ok it refl, of 9 "NetNodeId 2"]
  have "gp_members (process_gossip (with_members (get_all_members [(NetNodeId 1, ?n)])
      (gossip_message_new 9 (NetNodeId 2))) ?q) (NetNodeId 1) = Some ?n"
    by (simp add: process_gossip_def with_members_def get_all_members_def merge_member_def node_info_new_def)
  then show ?thesis using reach [of ?q] reach [of ?p] by (simp add: Let_def)
qed

text \<open>
  A departure is forgotten as soon as another member that has not heard of it gossips: the
  departed node is a member again, with the entry it had, and no event is raised.
\<close>

theorem leave_undone_by_gossip:
  assumes "members_ok (gp_members q)" and "gp_members q k = Some info" and "iterates es (gp_members q)"
  shows "gp_members (handle_leave k p) k = None
    \<and> gp_members (process_gossip (with_members (get_all_members es) (gossip_message_new now src)) (handle_leave k p)) k = Some info
    \<and> gp_pending_events (process_gossip (with_members (get_all_members es) (gossip_message_new now src)) (handle_leave k p))
      = gp_pending_events (handle_leave k p)"
proof -
  have none: "gp_members (handle_leave k p) k = None"
    by (simp add: handle_leave_def push_event_def split: option.splits)
  have in_es: "(k', n) \<in> set es \<longleftrightarrow> gp_members q k' = Some n" for k' n using iterates_lookup [OF assms(3)] by simp
  have "n = info" if n: "n \<in> set (get_all_members es)" "ni_id n = k" for n
  proof -
    obtain k' where k': "gp_members q k' = Some n" using n(1) by (auto simp: get_all_members_def in_es)
    then have "k' = k" using assms(1) n(2) by (auto simp: members_ok_def)
    then show "n = info" using k' assms(2) by simp
  qed
  moreover have "info \<in> set (get_all_members es)" "ni_id info = k"
    using assms(1,2) in_es [of k info] by (simp_all add: get_all_members_def members_ok_def) force
  ultimately have "fold merge_member (get_all_members es) (gp_members (handle_leave k p)) k = Some info"
    using none by (intro fold_merge_single) blast+
  then show ?thesis using none by (simp add: process_gossip_def with_members_def)
qed

theorem leave_undone_by_gossip_witness:
  "let n = node_info_new 5 (NetNodeId 1) (network_address_new ''a'' 1);
       p = \<lparr>gp_self_node = NetNodeId 2, gp_members = [NetNodeId 1 \<mapsto> n], gp_pending_events = [], gp_protocol_version = ''1.0.0''\<rparr>
   in gp_members (handle_leave (NetNodeId 1) p) (NetNodeId 1) = None
    \<and> gp_members (process_gossip (with_members [n] (gossip_message_new 9 (NetNodeId 2))) (handle_leave (NetNodeId 1) p)) (NetNodeId 1)
      = Some n"
proof -
  let ?n = "node_info_new 5 (NetNodeId 1) (network_address_new ''a'' 1)"
  let ?p = "\<lparr>gp_self_node = NetNodeId 2, gp_members = [NetNodeId 1 \<mapsto> ?n], gp_pending_events = [], gp_protocol_version = ''1.0.0''\<rparr>"
  have "members_ok (gp_members ?p)" "gp_members ?p (NetNodeId 1) = Some ?n" "iterates [(NetNodeId 1, ?n)] (gp_members ?p)"
    by (simp_all add: members_ok_def node_info_new_def iterates_def)
  from leave_undone_by_gossip [OF this, of ?p 9 "NetNodeId 2"] show ?thesis by (simp add: Let_def get_all_members_def)
qed

section \<open>Convergence\<close>

text \<open>The reported share is between 0 and 1, and 1 when every member is alive.\<close>

lemma convergence_range:
  assumes "length es < 2 ^ 64"
  shows "f_le (Fin 0) (convergence es) \<and> f_le (convergence es) (Fin 1)
    \<and> ((\<forall>e \<in> set es. is_alive (snd e)) \<longrightarrow> convergence es = Fin 1)"
proof (cases "es = []")
  case False
  have "length (filter is_alive (map snd es)) \<le> length es"
    using length_filter_le [of is_alive "map snd es"] by simp
  from count_ratio [OF this _ assms] False
  have "f_le (Fin 0) (convergence es) \<and> f_le (convergence es) (Fin 1)
      \<and> (length (filter is_alive (map snd es)) = length es \<longrightarrow> convergence es = Fin 1)"
    by (simp add: convergence_def)
  moreover have "filter is_alive (map snd es) = map snd es" if "\<forall>e \<in> set es. is_alive (snd e)"
    using that by (simp add: filter_id_conv)
  ultimately show ?thesis by fastforce
qed (simp add: convergence_def flits)

end
