(* ===== verification/Routing.thy ===== *)
theory Routing
  imports Prelude Gossip
begin

text \<open>
  Routing between nodes (\<open>kineplex-net/src/routing.rs\<close>): the routing table, the list of direct
  peers and the choice of the next hop. Proved: in every state the router can reach, a hop is
  found for exactly the known targets, and a route is the one written last for its target.
\<close>

record route =
  r_target :: net_node_id
  r_next_hop :: "net_node_id option"
  r_distance :: u32
  r_address :: network_address

record router =
  rt_self_node :: net_node_id
  rt_routes :: "net_node_id \<rightharpoonup> route"
  rt_direct_peers :: "net_node_id list"

definition router_new :: "net_node_id \<Rightarrow> router" where
  "router_new self = \<lparr>rt_self_node = self, rt_routes = Map.empty, rt_direct_peers = []\<rparr>"

definition direct_route :: "net_node_id \<Rightarrow> network_address \<Rightarrow> route" where
  "direct_route nid addr = \<lparr>r_target = nid, r_next_hop = None, r_distance = 1, r_address = addr\<rparr>"

definition add_peer :: "net_node_id \<Rightarrow> network_address \<Rightarrow> router \<Rightarrow> router" where
  "add_peer nid addr r =
     r\<lparr>rt_routes := (rt_routes r)(nid \<mapsto> direct_route nid addr), rt_direct_peers := rt_direct_peers r @ [nid]\<rparr>"

definition add_route :: "net_node_id \<Rightarrow> net_node_id \<Rightarrow> u32 \<Rightarrow> network_address \<Rightarrow> router \<Rightarrow> router" where
  "add_route target next_hop distance addr r =
     r\<lparr>rt_routes := (rt_routes r)(target \<mapsto>
       \<lparr>r_target = target, r_next_hop = Some next_hop, r_distance = distance, r_address = addr\<rparr>)\<rparr>"

definition get_route :: "net_node_id \<Rightarrow> router \<Rightarrow> route option" where
  "get_route target r = rt_routes r target"

definition get_address :: "net_node_id \<Rightarrow> router \<Rightarrow> network_address option" where
  "get_address target r = map_option r_address (rt_routes r target)"

definition get_peers :: "router \<Rightarrow> net_node_id list" where
  "get_peers r = rt_direct_peers r"

definition calculate_route :: "net_node_id \<Rightarrow> router \<Rightarrow> net_node_id option" where
  "calculate_route target r =
     (case rt_routes r target of
        Some rt \<Rightarrow> (if r_distance rt = 1 then Some target else r_next_hop rt)
      | None \<Rightarrow> None)"

definition update_routes :: "(net_node_id \<times> network_address) list \<Rightarrow> router \<Rightarrow> router" where
  "update_routes members r =
     fold (\<lambda>(nid, addr) r. if nid \<noteq> rt_self_node r
       then r\<lparr>rt_routes := (rt_routes r)(nid \<mapsto> direct_route nid addr)\<rparr> else r) members r"

section \<open>Reachable routers\<close>

datatype router_op =
    AddPeer net_node_id network_address
  | AddRoute net_node_id net_node_id u32 network_address
  | UpdateRoutes "(net_node_id \<times> network_address) list"

fun router_apply :: "router_op \<Rightarrow> router \<Rightarrow> router" where
  "router_apply (AddPeer nid addr) r = add_peer nid addr r"
| "router_apply (AddRoute t h d addr) r = add_route t h d addr r"
| "router_apply (UpdateRoutes ms) r = update_routes ms r"

definition router_ok :: "router \<Rightarrow> bool" where
  "router_ok r \<longleftrightarrow> set (rt_direct_peers r) \<subseteq> dom (rt_routes r)
     \<and> (\<forall>k rt. rt_routes r k = Some rt \<longrightarrow> r_target rt = k \<and> (r_next_hop rt = None \<longrightarrow> r_distance rt = 1))"

lemma update_routes_Cons:
  "update_routes ((nid, addr) # ms) r =
     update_routes ms (if nid \<noteq> rt_self_node r then r\<lparr>rt_routes := (rt_routes r)(nid \<mapsto> direct_route nid addr)\<rparr> else r)"
  by (simp add: update_routes_def)

lemma update_routes_Nil [simp]: "update_routes [] r = r"
  by (simp add: update_routes_def)

lemma update_routes_frame [simp]:
  "rt_self_node (update_routes ms r) = rt_self_node r" "rt_direct_peers (update_routes ms r) = rt_direct_peers r"
  by (induction ms arbitrary: r) (auto simp: update_routes_Cons)

text \<open>The routes gossip writes: the last address of each member, directly.\<close>

lemma update_routes_lookup:
  "rt_routes (update_routes ms r) k =
     (if k = rt_self_node r then rt_routes r k
      else case map_of (rev ms) k of None \<Rightarrow> rt_routes r k | Some addr \<Rightarrow> Some (direct_route k addr))"
proof (induction ms arbitrary: r)
  case (Cons m ms)
  obtain nid addr where m: "m = (nid, addr)" by (cases m)
  show ?case
    by (auto simp: m update_routes_Cons Cons.IH map_add_def split: option.splits)
qed simp

lemma router_apply_ok: "router_ok r \<Longrightarrow> router_ok (router_apply op r)"
proof (cases op)
  case (UpdateRoutes ms)
  assume ok: "router_ok r"
  have "dom (rt_routes r) \<subseteq> dom (rt_routes (update_routes ms r))"
    by (auto simp: update_routes_lookup split: option.splits)
  with ok have "set (rt_direct_peers r) \<subseteq> dom (rt_routes (update_routes ms r))" unfolding router_ok_def by blast
  moreover have "r_target rt = k \<and> (r_next_hop rt = None \<longrightarrow> r_distance rt = 1)"
    if "rt_routes (update_routes ms r) k = Some rt" for k rt
    using that ok unfolding update_routes_lookup
    by (auto simp: router_ok_def direct_route_def split: if_splits option.splits)
  ultimately show ?thesis using UpdateRoutes by (simp add: router_ok_def)
qed (auto simp: router_ok_def add_peer_def add_route_def direct_route_def)

lemma router_new_ok: "router_ok (router_new self)"
  by (simp add: router_ok_def router_new_def)

interpretation rs: invariant_system "\<lambda>r. \<exists>self. r = router_new self" "\<lambda>r r'. \<exists>op. r' = router_apply op r" router_ok
  by unfold_locales (auto simp: router_new_ok router_apply_ok)

text \<open>
  C29: In every state the router can reach from a new one, a next hop is found for exactly the
  targets that have a route, because they have been added or gossiped, among them every direct peer;
  and a target whose route names no next hop is reached directly: its next hop is itself.
\<close>

theorem route_found_iff_known:
  assumes "reach (\<lambda>r. \<exists>self. r = router_new self) (\<lambda>r r'. \<exists>op. r' = router_apply op r) r"
  shows "(calculate_route t r \<noteq> None \<longleftrightarrow> get_route t r \<noteq> None)
    \<and> (t \<in> set (get_peers r) \<longrightarrow> calculate_route t r \<noteq> None)
    \<and> (\<forall>rt. get_route t r = Some rt \<longrightarrow> r_target rt = t \<and> (r_next_hop rt = None \<longrightarrow> calculate_route t r = Some t))"
proof -
  have ok: "router_ok r" by (rule rs.reach_inv [OF assms])
  then have "t \<in> set (get_peers r) \<Longrightarrow> rt_routes r t \<noteq> None" by (auto simp: router_ok_def get_peers_def)
  with ok show ?thesis
    by (auto simp: calculate_route_def get_route_def router_ok_def split: option.splits)
qed

theorem route_found_iff_known_witness:
  "let r = add_route (NetNodeId 3) (NetNodeId 2) 2 (network_address_new ''c'' 3)
         (add_peer (NetNodeId 2) (network_address_new ''b'' 2) (router_new (NetNodeId 1)))
   in calculate_route (NetNodeId 2) r \<noteq> None \<and> (calculate_route (NetNodeId 4) r \<noteq> None \<longleftrightarrow> get_route (NetNodeId 4) r \<noteq> None)"
proof -
  let ?r1 = "add_peer (NetNodeId 2) (network_address_new ''b'' 2) (router_new (NetNodeId 1))"
  let ?r = "add_route (NetNodeId 3) (NetNodeId 2) 2 (network_address_new ''c'' 3) ?r1"
  let ?step = "\<lambda>r r'. \<exists>op. r' = router_apply op r" and ?init = "\<lambda>r. \<exists>self. r = router_new self"
  have "reach ?init ?step (router_new (NetNodeId 1))" by (rule reach_init) blast
  then have "reach ?init ?step ?r1" by (rule reach_step) (metis router_apply.simps(1))
  then have "reach ?init ?step ?r" by (rule reach_step) (metis router_apply.simps(2))
  note th = route_found_iff_known [OF this]
  have "NetNodeId 2 \<in> set (get_peers ?r)" by (simp add: get_peers_def add_route_def add_peer_def router_new_def)
  with th show ?thesis unfolding Let_def by blast
qed

text \<open>
  Gossip makes every other member a direct route, also one that was known over several hops;
  the peer list and the routes of departed members stay.
\<close>

lemma update_routes_direct:
  assumes "map_of (rev ms) k = Some addr" "k \<noteq> rt_self_node r"
  shows "calculate_route k (update_routes ms r) = Some k" and "get_address k (update_routes ms r) = Some addr"
  using assms by (simp_all add: calculate_route_def get_address_def update_routes_lookup direct_route_def)

end
