(* ===== verification/Protocol.thy ===== *)
theory Protocol
  imports Prelude
begin

text \<open>
  Versioned protocol messages (\<open>kineplex-net/src/protocol.rs\<close>): versions with their order and
  compatibility, the message envelope and its validation, and deprecation policies. Versions are
  an instance of \<open>linorder\<close> for the order \<open>is_newer_than\<close> computes. Proved: the order is linear
  and extends compatibility classes, the rendering of a version determines it, and a message is
  accepted exactly when a supported version has its major number.
\<close>

datatype protocol_version = ProtocolVersion (pv_major: u32) (pv_minor: u32) (pv_patch: u32)

definition version_display :: "protocol_version \<Rightarrow> string" where
  "version_display v = show_word (pv_major v) @ ''.'' @ show_word (pv_minor v) @ ''.'' @ show_word (pv_patch v)"

definition version_current :: protocol_version where
  "version_current = ProtocolVersion 1 0 0"

definition is_compatible :: "protocol_version \<Rightarrow> protocol_version \<Rightarrow> bool" where
  "is_compatible v w \<longleftrightarrow> pv_major v = pv_major w"

definition is_newer_than :: "protocol_version \<Rightarrow> protocol_version \<Rightarrow> bool" where
  "is_newer_than v w =
     (if pv_major v \<noteq> pv_major w then pv_major w < pv_major v
      else if pv_minor v \<noteq> pv_minor w then pv_minor w < pv_minor v
      else pv_patch w < pv_patch v)"

datatype message_type =
    SubmitGraph | GetStatus | CancelExecution | AllocateNodes
  | GossipMsg | Heartbeat | JoinMsg | LeaveMsg | FailureMsg
  | ExecuteStage | StageComplete | DataTransfer

record protocol_message =
  pm_id :: string
  pm_version :: protocol_version
  pm_message_type :: message_type
  pm_payload :: string
  pm_timestamp :: time
  pm_source :: string
  pm_target :: "string option"

text \<open>\<open>mid\<close> is the rendered random UUID and \<open>now\<close> the clock.\<close>

definition protocol_message_new :: "string \<Rightarrow> time \<Rightarrow> message_type \<Rightarrow> string \<Rightarrow> string \<Rightarrow> protocol_message" where
  "protocol_message_new mid now mt payload source =
     \<lparr>pm_id = mid, pm_version = version_current, pm_message_type = mt, pm_payload = payload,
      pm_timestamp = now, pm_source = source, pm_target = None\<rparr>"

definition with_target :: "string \<Rightarrow> protocol_message \<Rightarrow> protocol_message" where
  "with_target t m = m\<lparr>pm_target := Some t\<rparr>"

datatype protocol_error =
    VersionMismatch string string | InvalidMessage string
  | SerializationFailed string | UnsupportedMessageType string

fun protocol_error_display :: "protocol_error \<Rightarrow> string" where
  "protocol_error_display (VersionMismatch expected got) =
     ''Protocol version mismatch: expected one of '' @ expected @ '', got '' @ got"
| "protocol_error_display (InvalidMessage msg) = ''Invalid message: '' @ msg"
| "protocol_error_display (SerializationFailed msg) = ''Serialization error: '' @ msg"
| "protocol_error_display (UnsupportedMessageType msg) = ''Unsupported message type: '' @ msg"

fun any_compatible :: "protocol_version \<Rightarrow> protocol_version list \<Rightarrow> bool" where
  "any_compatible v [] = False"
| "any_compatible v (s # ss) = (if is_compatible v s then True else any_compatible v ss)"

definition validate_version :: "protocol_version list \<Rightarrow> protocol_message \<Rightarrow> protocol_error + unit" where
  "validate_version supported m =
     (if any_compatible (pm_version m) supported then Inr ()
      else Inl (VersionMismatch (join '', '' (map version_display supported)) (version_display (pm_version m))))"

record version_negotiation_request =
  vq_supported_versions :: "protocol_version list"
  vq_client_version :: protocol_version

record version_negotiation_response =
  vr_accepted_version :: protocol_version
  vr_deprecation_warning :: "string option"

record deprecation_policy =
  dp_version :: protocol_version
  dp_deprecated_at :: time
  dp_removal_at :: time
  dp_migration_guide :: string

text \<open>\<open>chrono::Duration::days\<close> panics when the milliseconds do not fit an \<open>i64\<close>.\<close>

definition deprecation_policy_new :: "time \<Rightarrow> protocol_version \<Rightarrow> int \<Rightarrow> string \<Rightarrow> deprecation_policy option" where
  "deprecation_policy_new now v days guide =
     (if \<bar>days * 86400000\<bar> < 2 ^ 63
      then Some \<lparr>dp_version = v, dp_deprecated_at = now,
        dp_removal_at = now + days * 86400000000000, dp_migration_guide = guide\<rparr>
      else None)"

definition is_deprecated :: "time \<Rightarrow> deprecation_policy \<Rightarrow> bool" where
  "is_deprecated now p \<longleftrightarrow> dp_deprecated_at p \<le> now"

definition should_remove :: "time \<Rightarrow> deprecation_policy \<Rightarrow> bool" where
  "should_remove now p \<longleftrightarrow> dp_removal_at p \<le> now"

record compatibility_entry =
  ce_client_version :: protocol_version
  ce_server_version :: protocol_version
  ce_compatible :: bool
  ce_tested_at :: time

section \<open>The order of versions\<close>

lemma newer_iff:
  "is_newer_than v w \<longleftrightarrow> pv_major w < pv_major v \<or> (pv_major w = pv_major v \<and>
     (pv_minor w < pv_minor v \<or> (pv_minor w = pv_minor v \<and> pv_patch w < pv_patch v)))"
  by (auto simp: is_newer_than_def)

lemma newer_trans: "is_newer_than u v \<Longrightarrow> is_newer_than v w \<Longrightarrow> is_newer_than u w"
  unfolding newer_iff by (auto dest: less_trans)

lemma newer_irrefl: "\<not> is_newer_than v v"
  by (simp add: newer_iff)

lemma newer_total: "v = w \<or> is_newer_than v w \<or> is_newer_than w v"
  unfolding newer_iff by (cases v; cases w) auto

instantiation protocol_version :: linorder
begin

definition less_protocol_version :: "protocol_version \<Rightarrow> protocol_version \<Rightarrow> bool" where
  "less_protocol_version v w \<longleftrightarrow> is_newer_than w v"

definition less_eq_protocol_version :: "protocol_version \<Rightarrow> protocol_version \<Rightarrow> bool" where
  "less_eq_protocol_version v w \<longleftrightarrow> v = w \<or> is_newer_than w v"

instance
proof
  fix u v w :: protocol_version
  show "v < w \<longleftrightarrow> v \<le> w \<and> \<not> w \<le> v"
    using newer_irrefl newer_trans unfolding less_protocol_version_def less_eq_protocol_version_def by blast
  show "v \<le> v" by (simp add: less_eq_protocol_version_def)
  show "u \<le> v \<Longrightarrow> v \<le> w \<Longrightarrow> u \<le> w" using newer_trans unfolding less_eq_protocol_version_def by blast
  show "v \<le> w \<Longrightarrow> w \<le> v \<Longrightarrow> v = w"
    using newer_irrefl newer_trans unfolding less_eq_protocol_version_def by blast
  show "v \<le> w \<or> w \<le> v" using newer_total unfolding less_eq_protocol_version_def by blast
qed

end

text \<open>Compatibility is an equivalence, and its classes are intervals of the order.\<close>

lemma compatible_interval: "u \<le> v \<Longrightarrow> v \<le> w \<Longrightarrow> is_compatible u w \<Longrightarrow> is_compatible u v"
  by (auto simp: less_eq_protocol_version_def is_compatible_def newer_iff)

lemma compatible_equivp: "equivp is_compatible"
  by (auto simp: is_compatible_def intro!: equivpI reflpI sympI transpI)

section \<open>Rendering\<close>

lemma dot_not_in_show: "CHR ''.'' \<notin> set (show_word w)"
  using show_word_digits [of "CHR ''.''" w] by (auto simp: is_digit_def)

text \<open>Two versions that are rendered alike are equal: the rendering loses nothing.\<close>

theorem version_display_injective:
  "version_display v = version_display w \<longleftrightarrow> v = w"
proof
  assume "version_display v = version_display w"
  then have "show_word (pv_major v) @ CHR ''.'' # (show_word (pv_minor v) @ CHR ''.'' # show_word (pv_patch v)) =
      show_word (pv_major w) @ CHR ''.'' # (show_word (pv_minor w) @ CHR ''.'' # show_word (pv_patch w))"
    by (simp add: version_display_def)
  note s = split_at_separator [OF dot_not_in_show dot_not_in_show this]
  from split_at_separator [OF dot_not_in_show dot_not_in_show conjunct2 [OF s]] s
  show "v = w" by (cases v; cases w) simp
qed simp

section \<open>Validation\<close>

lemma any_compatible_iff: "any_compatible v ss \<longleftrightarrow> (\<exists>s \<in> set ss. pv_major v = pv_major s)"
  by (induction ss) (auto simp: is_compatible_def)

text \<open>
  A message is accepted exactly when a supported version has the major number of its
  version; otherwise the error names its version, and with a single supported version that one.
  No message of the current version is refused by a receiver that supports the current version.
\<close>

theorem validate_version_outcome:
  "(validate_version supported m = Inr () \<longleftrightarrow> (\<exists>s \<in> set supported. pv_major s = pv_major (pm_version m)))
   \<and> (\<forall>e. validate_version supported m = Inl e \<longrightarrow>
        (\<exists>expected. e = VersionMismatch expected (version_display (pm_version m))
          \<and> (\<forall>s. supported = [s] \<longrightarrow> expected = version_display s)))
   \<and> (version_current \<in> set supported \<longrightarrow>
        validate_version supported (protocol_message_new mid now mt payload source) = Inr ())"
  by (auto simp: validate_version_def any_compatible_iff protocol_message_new_def)

theorem validate_version_outcome_witness:
  "validate_version [ProtocolVersion 1 4 2] (protocol_message_new ''id'' 0 Heartbeat ''{}'' ''n'') = Inr ()
    \<and> validate_version [ProtocolVersion 2 0 0] (protocol_message_new ''id'' 0 Heartbeat ''{}'' ''n'') \<noteq> Inr ()
    \<and> validate_version [version_current] (protocol_message_new ''id'' 0 Heartbeat ''{}'' ''n'') = Inr ()"
proof -
  let ?m = "protocol_message_new ''id'' 0 Heartbeat ''{}'' ''n''"
  have "pv_major (pm_version ?m) = 1" by (simp add: protocol_message_new_def version_current_def)
  then show ?thesis
    using validate_version_outcome [of "[ProtocolVersion 1 4 2]" ?m] validate_version_outcome [of "[ProtocolVersion 2 0 0]" ?m]
      validate_version_outcome [of "[version_current]" ?m "''id''" 0 Heartbeat "''{}''" "''n''"]
    by simp
qed

section \<open>Deprecation\<close>

text \<open>A version counts as deprecated from the moment its policy is made; it is never removed before.\<close>

lemma removal_after_deprecation:
  assumes "deprecation_policy_new t v days guide = Some p" "0 \<le> days"
  shows "is_deprecated now p \<longleftrightarrow> t \<le> now" and "should_remove now p \<Longrightarrow> is_deprecated now p"
  using assms by (auto simp: deprecation_policy_new_def is_deprecated_def should_remove_def split: if_splits)

end
