(* ===== verification/TestsNet.thy ===== *)
theory TestsNet
  imports Gossip Routing Protocol
begin

text \<open>
  The unit tests of \<open>kineplex-net\<close> (\<open>lib.rs\<close>, \<open>gossip.rs\<close>, \<open>routing.rs\<close>, \<open>protocol.rs\<close>) replayed
  on the model. The identifiers a test draws are arguments, distinct by hypothesis; \<open>now\<close> is
  the clock and \<open>es\<close> the order in which a table is iterated.
\<close>

section \<open>Gossip\<close>

text \<open>A fresh node on localhost, registered with a fresh protocol.\<close>

definition local_node :: "time \<Rightarrow> net_node_id \<Rightarrow> node_info" where
  "local_node now nid = node_info_new now nid (network_address_new ''localhost'' 8080)"

type_synonym member_order = "(net_node_id \<times> node_info) list"

definition membership_tests :: "time \<Rightarrow> net_node_id \<Rightarrow> net_node_id \<Rightarrow> member_order \<Rightarrow> member_order \<Rightarrow> bool" where
  "membership_tests now self nid es es' \<longleftrightarrow>
     (let p = register_node (local_node now nid) (gossip_protocol_new now self); q = handle_failure nid p in
      (iterates es (gp_members p) \<longrightarrow> get_alive_members es p \<noteq> [])
      \<and> (iterates es' (gp_members q) \<longrightarrow> get_alive_members es' q = []))"

definition node_info_tests :: "time \<Rightarrow> time \<Rightarrow> net_node_id \<Rightarrow> bool" where
  "node_info_tests now later nid \<longleftrightarrow>
     (let n = node_info_new now nid (network_address_new ''192.168.1.1'' 8080) in ni_id n = nid \<and> is_alive n)
     \<and> (case update_heartbeat True later (local_node now nid) of
          None \<Rightarrow> False
        | Some n \<Rightarrow> ni_last_heartbeat (local_node now nid) \<le> ni_last_heartbeat n \<and> ni_incarnation n = 1)
     \<and> (let n = local_node now nid; n' = n\<lparr>ni_metadata := (ni_metadata n)(''role'' \<mapsto> ''worker'')\<rparr>
        in ni_metadata n' ''role'' = Some ''worker'')
     \<and> network_address_display (network_address_new ''localhost'' 8080) = ''localhost:8080''
     \<and> network_address_display (network_address_new ''192.168.1.1'' 9000) = ''192.168.1.1:9000''"

definition message_tests :: "time \<Rightarrow> net_node_id \<Rightarrow> net_node_id \<Rightarrow> bool" where
  "message_tests now self nid \<longleftrightarrow>
     gm_source (gossip_message_new now self) = self \<and> gm_members (gossip_message_new now self) = []
     \<and> length (gm_members (with_members [local_node now nid] (gossip_message_new now self))) = 1"

definition table_tests :: "time \<Rightarrow> net_node_id \<Rightarrow> net_node_id \<Rightarrow> member_order \<Rightarrow> bool" where
  "table_tests now self nid es \<longleftrightarrow>
     (let p = gossip_protocol_new now self; q = register_node (local_node now nid) p;
          left = handle_leave nid q; rejoined = handle_rejoin (local_node now nid) (handle_failure nid q)
      in (iterates es (gp_members p) \<longrightarrow> get_all_members es \<noteq> [])
       \<and> (iterates es (gp_members left) \<longrightarrow> get_alive_members es left = [] \<or> length (get_alive_members es left) = 1)
       \<and> (iterates es (gp_members rejoined) \<longrightarrow> get_alive_members es rejoined \<noteq> [])
       \<and> (iterates es (gp_members p) \<longrightarrow> convergence es = flit 1)
       \<and> protocol_version p = ''1.0.0'')"

definition events_test :: "time \<Rightarrow> net_node_id \<Rightarrow> net_node_id \<Rightarrow> bool" where
  "events_test now self nid \<longleftrightarrow>
     snd (get_events (register_node (local_node now nid) (gossip_protocol_new now self))) \<noteq> []"

section \<open>Routes\<close>

definition router_test :: "net_node_id \<Rightarrow> net_node_id \<Rightarrow> bool" where
  "router_test self peer \<longleftrightarrow>
     map_option r_distance (get_route peer (add_peer peer (network_address_new ''localhost'' 8080) (router_new self))) = Some 1"

definition multihop_test :: "net_node_id \<Rightarrow> net_node_id \<Rightarrow> net_node_id \<Rightarrow> net_node_id \<Rightarrow> net_node_id \<Rightarrow> bool" where
  "multihop_test self peer target other fresh \<longleftrightarrow>
     (let addr = network_address_new ''localhost'' 9000;
          r = add_peer peer addr (router_new self);
          r' = add_route target peer 2 addr r
      in get_peers r = [peer] \<and> calculate_route peer r = Some peer
       \<and> map_option network_address_display (get_address peer r) = Some ''localhost:9000''
       \<and> calculate_route target r' = Some peer \<and> map_option r_distance (get_route target r') = Some 2
       \<and> get_route other r' = None \<and> calculate_route other r' = None
       \<and> length (get_peers (update_routes [(self, addr), (fresh, addr)] r')) = 1)"

section \<open>Protocol\<close>

definition version_tests :: bool where
  "version_tests \<longleftrightarrow>
     (let v1 = ProtocolVersion 1 0 0; v2 = ProtocolVersion 1 1 0; v3 = ProtocolVersion 2 0 0 in
      is_compatible v1 v2 \<and> \<not> is_compatible v1 v3 \<and> is_newer_than v2 v1 \<and> is_newer_than v3 v1)"

definition validation_tests :: "string \<Rightarrow> time \<Rightarrow> bool" where
  "validation_tests mid now \<longleftrightarrow>
     \<not> isl (validate_version [ProtocolVersion 1 0 0] (protocol_message_new mid now SubmitGraph ''{}'' ''node-1''))
     \<and> pv_major version_current = 1 \<and> pv_minor version_current = 0 \<and> pv_patch version_current = 0
     \<and> version_display (ProtocolVersion 1 2 3) = ''1.2.3''
     \<and> ProtocolVersion 1 2 3 = ProtocolVersion 1 2 3
     \<and> \<not> is_compatible (ProtocolVersion 1 0 0) (ProtocolVersion 2 0 0)
     \<and> \<not> is_newer_than (ProtocolVersion 1 0 0) (ProtocolVersion 1 0 0)"

definition protocol_message_tests :: "string \<Rightarrow> time \<Rightarrow> string \<Rightarrow> bool" where
  "protocol_message_tests mid now payload \<longleftrightarrow>
     (let m = protocol_message_new mid now SubmitGraph payload ''node-1'' in
      pm_message_type m = SubmitGraph \<and> pm_source m = ''node-1'' \<and> pm_target m = None)
     \<and> pm_target (with_target ''node-2'' (protocol_message_new mid now ExecuteStage ''{}'' ''node-1'')) = Some ''node-2''
     \<and> isl (validate_version [ProtocolVersion 2 0 0] (protocol_message_new mid now SubmitGraph ''{}'' ''node-1''))"

definition protocol_error_tests :: bool where
  "protocol_error_tests \<longleftrightarrow>
     contains (protocol_error_display (VersionMismatch ''1.0.0'' ''2.0.0'')) ''version mismatch''
     \<and> contains (protocol_error_display (InvalidMessage ''test'')) ''Invalid message''
     \<and> contains (protocol_error_display (SerializationFailed ''test'')) ''Serialization error''
     \<and> contains (protocol_error_display (UnsupportedMessageType ''test'')) ''Unsupported message type''"

definition deprecation_test :: "time \<Rightarrow> bool" where
  "deprecation_test now \<longleftrightarrow>
     (case deprecation_policy_new now (ProtocolVersion 1 0 0) 90 ''Migration guide URL'' of
        None \<Rightarrow> False
      | Some p \<Rightarrow> pv_major (dp_version p) = 1 \<and> is_deprecated now p \<and> \<not> should_remove now p)"

definition negotiation_tests :: "time \<Rightarrow> bool" where
  "negotiation_tests now \<longleftrightarrow>
     (let e = \<lparr>ce_client_version = ProtocolVersion 1 0 0, ce_server_version = ProtocolVersion 1 1 0,
            ce_compatible = True, ce_tested_at = now\<rparr>
      in ce_compatible e \<and> is_compatible (ce_client_version e) (ce_server_version e))
     \<and> length (vq_supported_versions \<lparr>vq_supported_versions = [ProtocolVersion 1 0 0, ProtocolVersion 1 1 0],
            vq_client_version = ProtocolVersion 1 0 0\<rparr>) = 2
     \<and> (let r = \<lparr>vr_accepted_version = ProtocolVersion 1 0 0,
            vr_deprecation_warning = Some ''Version 1.0.0 will be deprecated''\<rparr>
        in pv_major (vr_accepted_version r) = 1 \<and> vr_deprecation_warning r \<noteq> None)"

section \<open>The tests pass\<close>

lemma alive_nonempty:
  assumes "iterates es (gp_members p)" "gp_members p nid = Some n" "is_alive n" "ni_id n \<noteq> gp_self_node p"
  shows "get_alive_members es p \<noteq> []"
  using assms iterates_lookup [OF assms(1), of nid n] by (force simp: get_alive_members_def filter_empty_conv)

lemma alive_empty:
  assumes "iterates es (gp_members p)" "\<And>k n. gp_members p k = Some n \<Longrightarrow> \<not> is_alive n \<or> ni_id n = gp_self_node p"
  shows "get_alive_members es p = []"
  using assms(2) iterates_lookup [OF assms(1)] by (fastforce simp: get_alive_members_def filter_empty_conv)

lemmas net_test_defs = local_node_def gossip_protocol_new_def node_info_new_def push_event_def register_node_def
  handle_failure_def handle_leave_def handle_rejoin_def is_alive_def

lemma show_ports: "show_nat 8080 = ''8080''" "show_nat 9000 = ''9000''"
  by (simp_all add: show_nat.simps digits)

lemma membership_tests_pass:
  assumes "nid \<noteq> self"
  shows "membership_tests now self nid es es'"
proof -
  let ?p = "register_node (local_node now nid) (gossip_protocol_new now self)"
  have "get_alive_members es ?p \<noteq> []" if "iterates es (gp_members ?p)"
    using that by (rule alive_nonempty [of _ _ nid "local_node now nid"]) (use assms in \<open>simp_all add: net_test_defs\<close>)
  moreover have "get_alive_members es' (handle_failure nid ?p) = []" if "iterates es' (gp_members (handle_failure nid ?p))"
    using that by (rule alive_empty) (auto simp: net_test_defs split: if_splits)
  ultimately show ?thesis by (simp add: membership_tests_def Let_def)
qed

lemma node_info_tests_pass: "now \<le> later \<Longrightarrow> node_info_tests now later nid"
  by (simp add: node_info_tests_def net_test_defs update_heartbeat_def add_chk_def
      network_address_display_def network_address_new_def show_word_def show_ports)

lemma message_tests_pass: "message_tests now self nid"
  by (simp add: message_tests_def gossip_message_new_def with_members_def)

lemma table_tests_pass:
  assumes "nid \<noteq> self"
  shows "table_tests now self nid es"
proof -
  let ?p = "gossip_protocol_new now self"
  let ?q = "register_node (local_node now nid) ?p"
  let ?rejoined = "handle_rejoin (local_node now nid) (handle_failure nid ?q)"
  have "get_all_members es \<noteq> [] \<and> convergence es = flit 1" if "iterates es (gp_members ?p)"
  proof -
    have "length es = 1" using iterates_length [OF that] by (simp add: net_test_defs)
    moreover have "is_alive (snd e)" if e: "e \<in> set es" for e
    proof -
      have "gp_members ?p (fst e) = Some (snd e)" using iterates_lookup [OF \<open>iterates es (gp_members ?p)\<close>] e by simp
      then show ?thesis by (cases e) (auto simp: net_test_defs split: if_splits)
    qed
    ultimately show ?thesis using convergence_range [of es] by (auto simp: get_all_members_def flits)
  qed
  moreover have "get_alive_members es (handle_leave nid ?q) = []" if "iterates es (gp_members (handle_leave nid ?q))"
    using that by (rule alive_empty) (auto simp: net_test_defs split: if_splits)
  moreover have "get_alive_members es ?rejoined \<noteq> []" if "iterates es (gp_members ?rejoined)"
    using that by (rule alive_nonempty [of _ _ nid "local_node now nid"]) (use assms in \<open>simp_all add: net_test_defs\<close>)
  moreover have "protocol_version ?p = ''1.0.0''" by (simp add: protocol_version_def gossip_protocol_new_def)
  ultimately show ?thesis unfolding table_tests_def Let_def by blast
qed

lemma events_test_pass: "events_test now self nid"
  by (simp add: events_test_def get_events_def net_test_defs)

lemma router_test_pass: "router_test self peer"
  by (simp add: router_test_def get_route_def add_peer_def direct_route_def)

lemma multihop_test_pass:
  assumes "distinct [self, peer, target, other, fresh]"
  shows "multihop_test self peer target other fresh"
  using assms by (auto simp: show_ports multihop_test_def get_route_def add_peer_def direct_route_def add_route_def router_new_def
        get_peers_def calculate_route_def get_address_def update_routes_def network_address_display_def
        network_address_new_def show_word_def)

lemma version_tests_pass: version_tests
  by (simp add: version_tests_def is_compatible_def is_newer_than_def)

lemma validation_tests_pass: "validation_tests mid now"
  by (simp add: validation_tests_def validate_version_def protocol_message_new_def version_current_def is_compatible_def
      is_newer_than_def version_display_def show_word_def show_nat.simps digits)

lemma protocol_message_tests_pass: "protocol_message_tests mid now payload"
  by (simp add: protocol_message_tests_def protocol_message_new_def with_target_def validate_version_def
      version_current_def is_compatible_def)

lemma protocol_error_tests_pass: protocol_error_tests
  by (simp add: protocol_error_tests_def)

lemma deprecation_test_pass: "deprecation_test now"
  by (simp add: deprecation_test_def deprecation_policy_new_def is_deprecated_def should_remove_def)

lemma negotiation_tests_pass: "negotiation_tests now"
  by (simp add: negotiation_tests_def is_compatible_def)

end
