(* ===== verification/Cluster.thy ===== *)
theory Cluster
  imports CoreTypes F64
begin

text \<open>
  The cluster manager (\<open>kineplex-node/src/lib.rs\<close>): the nodes of the cluster, each with a
  state, and the operations the control plane uses to pick ready nodes and to move a node from
  one state to another. \<open>es\<close> is the iteration order of the \<open>nodes\<close> map that a reading method
  sees; identifiers drawn at random are arguments.
\<close>

section \<open>State\<close>

datatype node_id = NodeId string

datatype node_state = Starting | Ready | Executing graph_id | ShuttingDown | NodeFailed string

record node_capacity =
  nc_max_concurrent :: u32
  nc_memory_mb :: u64
  nc_cpu_cores :: u32

definition node_capacity_default :: node_capacity where
  "node_capacity_default = \<lparr>nc_max_concurrent = 4, nc_memory_mb = 2048, nc_cpu_cores = 4\<rparr>"

record cluster_node =
  cn_id :: node_id
  cn_state :: node_state
  cn_capacity :: node_capacity
  cn_current_load :: f64

record cluster =
  nodes :: "node_id \<rightharpoonup> cluster_node"
  self_node :: node_id

section \<open>Operations\<close>

definition cluster_new :: "node_id \<Rightarrow> cluster" where
  "cluster_new nid = \<lparr>nodes = [nid \<mapsto> \<lparr>cn_id = nid, cn_state = Ready,
     cn_capacity = node_capacity_default, cn_current_load = flit 0\<rparr>], self_node = nid\<rparr>"

definition register_node :: "cluster_node \<Rightarrow> cluster \<Rightarrow> cluster" where
  "register_node node c = c\<lparr>nodes := (nodes c)(cn_id node \<mapsto> node)\<rparr>"

definition get_ready_nodes :: "(node_id \<times> cluster_node) list \<Rightarrow> node_id list" where
  "get_ready_nodes es = map cn_id (filter (\<lambda>n. cn_state n = Ready) (map snd es))"

definition allocate_nodes :: "(node_id \<times> cluster_node) list \<Rightarrow> u32 \<Rightarrow> node_id list" where
  "allocate_nodes es required = take (unat required) (get_ready_nodes es)"

definition update_node_state :: "node_id \<Rightarrow> node_state \<Rightarrow> cluster \<Rightarrow> cluster" where
  "update_node_state nid st c =
     (case nodes c nid of
        None \<Rightarrow> c
      | Some n \<Rightarrow> c\<lparr>nodes := (nodes c)(nid \<mapsto> n\<lparr>cn_state := st\<rparr>)\<rparr>)"

definition self_node_id :: "cluster \<Rightarrow> node_id" where
  "self_node_id c = self_node c"

definition handle_rejoin :: "node_id \<Rightarrow> cluster \<Rightarrow> cluster" where
  "handle_rejoin nid c =
     (case nodes c nid of
        Some n \<Rightarrow> c\<lparr>nodes := (nodes c)(nid \<mapsto> n\<lparr>cn_state := Ready\<rparr>)\<rparr>
      | None \<Rightarrow> c\<lparr>nodes := (nodes c)(nid \<mapsto> \<lparr>cn_id = nid, cn_state = Ready,
          cn_capacity = node_capacity_default, cn_current_load = flit 0\<rparr>)\<rparr>)"

section \<open>Well-formed clusters\<close>

text \<open>Every node is stored under its own id, and the manager's own node is among them.\<close>

definition cluster_wf :: "cluster \<Rightarrow> bool" where
  "cluster_wf c \<longleftrightarrow> (\<forall>k n. nodes c k = Some n \<longrightarrow> cn_id n = k) \<and> self_node c \<in> dom (nodes c)"

lemma cluster_new_wf: "cluster_wf (cluster_new nid)"
  by (simp add: cluster_wf_def cluster_new_def)

lemma register_node_wf: "cluster_wf c \<Longrightarrow> cluster_wf (register_node node c)"
  by (simp add: cluster_wf_def register_node_def)

lemma update_node_state_wf: "cluster_wf c \<Longrightarrow> cluster_wf (update_node_state nid st c)"
  by (auto simp: cluster_wf_def update_node_state_def split: option.splits)

lemma handle_rejoin_wf: "cluster_wf c \<Longrightarrow> cluster_wf (handle_rejoin nid c)"
  by (auto simp: cluster_wf_def handle_rejoin_def split: option.splits)

lemmas cluster_ops_wf = register_node_wf update_node_state_wf handle_rejoin_wf

lemma self_node_update [simp]: "self_node (update_node_state nid st c) = self_node c"
  by (simp add: update_node_state_def split: option.splits)

section \<open>The cluster as a table of claimable nodes\<close>

lemma set_get_ready_nodes:
  assumes "iterates es (nodes c)" "cluster_wf c"
  shows "nid \<in> set (get_ready_nodes es) \<longleftrightarrow> (\<exists>n. nodes c nid = Some n \<and> cn_state n = Ready)"
proof -
  have "nid \<in> set (get_ready_nodes es) \<longleftrightarrow> (\<exists>k n. nodes c k = Some n \<and> cn_state n = Ready \<and> cn_id n = nid)"
    by (auto simp: get_ready_nodes_def iterates_lookup [OF assms(1)] image_iff) force+
  then show ?thesis using assms(2) by (auto simp: cluster_wf_def)
qed

lemma distinct_get_ready_nodes:
  assumes "iterates es (nodes c)" "cluster_wf c"
  shows "distinct (get_ready_nodes es)"
proof -
  have ids: "map cn_id (map snd es) = map fst es"
    using iterates_lookup [OF assms(1)] assms(2) by (auto simp: cluster_wf_def)
  have "distinct (map cn_id (map snd es))"
    unfolding ids using assms(1) by (rule iterates_distinct)
  then show ?thesis
    unfolding get_ready_nodes_def by (rule distinct_map_filter)
qed

definition cluster_order :: "(node_id \<times> cluster_node) list \<Rightarrow> cluster \<Rightarrow> bool" where
  "cluster_order es c \<longleftrightarrow> iterates es (nodes c) \<and> cluster_wf c"

text \<open>The allocation law is stated over \<open>take n\<close>; the code's \<open>n\<close> is a \<open>u32\<close>.\<close>

interpretation cl: claim_table nodes cn_state update_node_state cluster_order
  "\<lambda>es n. take n (get_ready_nodes es)" Ready
proof unfold_locales
  show "k \<in> set (take n (get_ready_nodes es))"
    if "cluster_order es c" "length (take n (get_ready_nodes es)) < n" "nodes c k = Some v" "cn_state v = Ready"
    for es c n k v
    using that set_get_ready_nodes [of es c k] by (auto simp: cluster_order_def)
qed (auto simp: update_node_state_def cluster_order_def set_get_ready_nodes distinct_get_ready_nodes
      split: option.splits dest: in_set_takeD)

lemma claim_wf: "cluster_wf c \<Longrightarrow> cluster_wf (cl.claim ks st c)"
  by (induction ks arbitrary: c) (simp_all add: update_node_state_wf)

lemma claim_fold: "fold (\<lambda>nid. update_node_state nid st) ks c = cl.claim ks st c"
  by (induction ks arbitrary: c) simp_all

text \<open>A claim changes the state of the claimed nodes and nothing else.\<close>

lemma claim_nodes:
  "cl.claim ks st c = c\<lparr>nodes := (\<lambda>nid. if nid \<in> set ks then map_option (\<lambda>n. n\<lparr>cn_state := st\<rparr>) (nodes c nid) else nodes c nid)\<rparr>"
proof (induction ks arbitrary: c)
  case (Cons k ks)
  have "update_node_state k st c = c\<lparr>nodes := (\<lambda>nid. if nid = k then map_option (\<lambda>n. n\<lparr>cn_state := st\<rparr>) (nodes c nid) else nodes c nid)\<rparr>"
    by (cases c) (auto simp: update_node_state_def fun_eq_iff split: option.splits)
  then show ?case
    unfolding cl.claim_simps Cons.IH by (auto simp: fun_eq_iff option.map_comp comp_def)
qed simp

lemma distinct_allocate_nodes:
  "iterates es (nodes c) \<Longrightarrow> cluster_wf c \<Longrightarrow> distinct (allocate_nodes es required)"
  by (simp add: allocate_nodes_def distinct_get_ready_nodes)

lemma length_allocate_nodes:
  assumes "iterates es (nodes c)" and "cluster_wf c"
  shows "length (allocate_nodes es required) =
    min (unat required) (card {nid. \<exists>n. nodes c nid = Some n \<and> cn_state n = Ready})"
proof -
  have "{nid. \<exists>n. nodes c nid = Some n \<and> cn_state n = Ready} = set (get_ready_nodes es)"
    using set_get_ready_nodes [OF assms] by blast
  then have "card {nid. \<exists>n. nodes c nid = Some n \<and> cn_state n = Ready} = length (get_ready_nodes es)"
    using distinct_card [OF distinct_get_ready_nodes [OF assms]] by simp
  then show ?thesis by (simp add: allocate_nodes_def)
qed

text \<open>
  C9: An allocation, in whatever order the nodes are iterated, holds distinct ready nodes, at
  most as many as required, and every ready node when it holds fewer than required.
\<close>

theorem allocate_nodes_correct:
  assumes "iterates es (nodes c)" and "cluster_wf c"
  shows "distinct (allocate_nodes es required)
    \<and> (\<forall>nid \<in> set (allocate_nodes es required). \<exists>n. nodes c nid = Some n \<and> cn_state n = Ready)
    \<and> length (allocate_nodes es required) = min (unat required) (card {nid. \<exists>n. nodes c nid = Some n \<and> cn_state n = Ready})"
  using distinct_allocate_nodes [OF assms] set_get_ready_nodes [OF assms] length_allocate_nodes [OF assms]
  by (auto simp: allocate_nodes_def dest: in_set_takeD)

theorem allocate_nodes_correct_witness:
  "let c = register_node \<lparr>cn_id = NodeId ''b'', cn_state = ShuttingDown, cn_capacity = node_capacity_default,
         cn_current_load = Fin 0\<rparr> (cluster_new (NodeId ''a''));
       es = [(NodeId ''b'', the (nodes c (NodeId ''b''))), (NodeId ''a'', the (nodes c (NodeId ''a'')))]
   in allocate_nodes es 2 = [NodeId ''a'']
    \<and> length (allocate_nodes es 2) = min 2 (card {nid. \<exists>n. nodes c nid = Some n \<and> cn_state n = Ready})"
proof -
  let ?b = "\<lparr>cn_id = NodeId ''b'', cn_state = ShuttingDown, cn_capacity = node_capacity_default,
    cn_current_load = Fin 0\<rparr>"
  let ?c = "register_node ?b (cluster_new (NodeId ''a''))"
  let ?es = "[(NodeId ''b'', the (nodes ?c (NodeId ''b''))), (NodeId ''a'', the (nodes ?c (NodeId ''a'')))]"
  have it: "iterates ?es (nodes ?c)"
    by (auto simp: iterates_def register_node_def cluster_new_def fun_eq_iff)
  have wf: "cluster_wf ?c" by (intro register_node_wf cluster_new_wf)
  have "allocate_nodes ?es 2 = [NodeId ''a'']"
    by (simp add: allocate_nodes_def get_ready_nodes_def register_node_def cluster_new_def)
  with allocate_nodes_correct [OF it wf, of 2] show ?thesis by (simp add: Let_def)
qed

end
