(* ===== verification/Control.thy ===== *)
theory Control
  imports Cluster
begin

text \<open>
  The control plane (\<open>kineplex-node/src/control.rs\<close>): submissions, tenant quotas, allocation of
  nodes, cancellation and node failure. The state of \<open>NodeControl\<close> is a record with the cluster
  it shares, its graphs, submissions and quotas, and the authentication switch; the
  \<open>PipelineExecutor\<close> it holds is never used and is left out. The identifier of a new graph, the
  clock, the \<open>chrono\<close> addition of minutes and the iteration order of the cluster's nodes are
  arguments.

  After the operations: the invariant of all reachable states, the quota interface, what a
  submission does on every branch, and what becomes of quotas and of cancellation.
\<close>

section \<open>Requests and results\<close>

record submission_config =
  sc_max_memory_mb :: "u64 option"
  sc_max_fuel :: "u64 option"
  sc_enable_simd :: "bool option"
  sc_output_path :: "string option"
  sc_required_nodes :: "u32 option"

definition submission_config_default :: submission_config where
  "submission_config_default = \<lparr>sc_max_memory_mb = Some 512, sc_max_fuel = Some 1000000,
     sc_enable_simd = Some True, sc_output_path = None, sc_required_nodes = Some 1\<rparr>"

record client_credentials =
  cc_cert :: "string option"
  cc_key :: "string option"
  cc_token :: "string option"

record submission_request =
  sr_submission_id :: string
  sr_tenant_id :: string
  sr_config :: submission_config
  sr_idempotency_key :: "string option"
  sr_credentials :: "client_credentials option"

record allocation_result =
  ar_graph_id :: graph_id
  ar_allocated_nodes :: "node_id list"
  ar_estimated_completion :: time

record tenant_quota_info =
  tq_tenant_id :: string
  tq_max_concurrent_graphs :: u32
  tq_max_memory_mb :: u64
  tq_max_fuel :: u64
  tq_active_graphs :: u32

record node_control =
  nc_cluster :: cluster
  nc_graphs :: "graph_id \<rightharpoonup> graph"
  nc_submissions :: "string \<rightharpoonup> submission_request"
  nc_auth_enabled :: bool
  nc_tenant_quotas :: "string \<rightharpoonup> tenant_quota_info"

section \<open>Operations\<close>

definition node_control_new :: "cluster \<Rightarrow> node_control" where
  "node_control_new c = \<lparr>nc_cluster = c, nc_graphs = Map.empty, nc_submissions = Map.empty,
     nc_auth_enabled = False, nc_tenant_quotas = Map.empty\<rparr>"

definition set_auth_enabled :: "bool \<Rightarrow> node_control \<Rightarrow> node_control" where
  "set_auth_enabled enabled s = s\<lparr>nc_auth_enabled := enabled\<rparr>"

definition register_tenant :: "tenant_quota_info \<Rightarrow> node_control \<Rightarrow> node_control" where
  "register_tenant quota s = s\<lparr>nc_tenant_quotas := (nc_tenant_quotas s)(tq_tenant_id quota \<mapsto> quota)\<rparr>"

definition check_quota :: "submission_request \<Rightarrow> node_control \<Rightarrow> node_control \<times> unit result" where
  "check_quota req s =
     (case nc_tenant_quotas s (sr_tenant_id req) of
        None \<Rightarrow> (s, Inr ())
      | Some quota \<Rightarrow>
          if tq_max_concurrent_graphs quota \<le> tq_active_graphs quota
          then (s, Inl (QuotaExceeded (''Tenant '' @ sr_tenant_id req @ '' has reached maximum concurrent graphs'')))
          else (s\<lparr>nc_tenant_quotas := (nc_tenant_quotas s)(sr_tenant_id req \<mapsto>
                    quota\<lparr>tq_active_graphs := tq_active_graphs quota + 1\<rparr>)\<rparr>, Inr ()))"

definition validate_submission :: "submission_request \<Rightarrow> node_control \<Rightarrow> node_control \<times> unit result" where
  "validate_submission req s =
     (if nc_auth_enabled s \<and> sr_credentials req = None then (s, Inl AuthenticationRequired)
      else check_quota req s)"

lemmas validate_defs = validate_submission_def check_quota_def

definition unwrap_or :: "'a option \<Rightarrow> 'a \<Rightarrow> 'a" where
  "unwrap_or x d = (case x of None \<Rightarrow> d | Some v \<Rightarrow> v)"

definition request_graph_config :: "submission_request \<Rightarrow> graph_config" where
  "request_graph_config req =
     \<lparr>gc_max_memory_mb = unwrap_or (sc_max_memory_mb (sr_config req)) 512,
      gc_max_fuel = unwrap_or (sc_max_fuel (sr_config req)) 1000000,
      gc_enable_simd = unwrap_or (sc_enable_simd (sr_config req)) True,
      gc_output_path = sc_output_path (sr_config req)\<rparr>"

definition mark_executing :: "graph_id \<Rightarrow> node_id list \<Rightarrow> node_control \<Rightarrow> node_control" where
  "mark_executing gid ks s =
     s\<lparr>nc_cluster := fold (\<lambda>nid. update_node_state nid (Executing gid)) ks (nc_cluster s)\<rparr>"

definition control_submit ::
  "(time \<Rightarrow> int \<Rightarrow> time) \<Rightarrow> graph_id \<Rightarrow> time \<Rightarrow> (node_id \<times> cluster_node) list \<Rightarrow>
   submission_request \<Rightarrow> node_control \<Rightarrow> node_control \<times> allocation_result result" where
  "control_submit plus_minutes gid now es req s =
     (case validate_submission req s of
        (s1, Inl e) \<Rightarrow> (s1, Inl e)
      | (s1, Inr _) \<Rightarrow>
          (let g = create_distributed_graph gid (Some (sr_tenant_id req)) (request_graph_config req);
               s2 = s1\<lparr>nc_graphs := (nc_graphs s1)(gid \<mapsto> g)\<rparr>;
               required = unwrap_or (sc_required_nodes (sr_config req)) 1;
               s3 = s2\<lparr>nc_submissions := (nc_submissions s2)(sr_submission_id req \<mapsto> req)\<rparr>;
               allocated = allocate_nodes es required;
               s4 = mark_executing gid allocated s3
           in (s4, Inr \<lparr>ar_graph_id = gid, ar_allocated_nodes = allocated,
                        ar_estimated_completion = plus_minutes now 5\<rparr>)))"

definition get_graph_status :: "(uuid \<Rightarrow> string) \<Rightarrow> graph_id \<Rightarrow> node_control \<Rightarrow> graph_status result" where
  "get_graph_status show_uuid gid s =
     (case nc_graphs s gid of
        None \<Rightarrow> Inl (GraphNotFound (show_uuid (graph_uuid gid)))
      | Some g \<Rightarrow> Inr (g_status g))"

definition control_cancel :: "(uuid \<Rightarrow> string) \<Rightarrow> graph_id \<Rightarrow> node_control \<Rightarrow> node_control \<times> unit result" where
  "control_cancel show_uuid gid s =
     (case nc_graphs s gid of
        None \<Rightarrow> (s, Inl (GraphNotFound (show_uuid (graph_uuid gid))))
      | Some g \<Rightarrow>
          (case g_status g of
             Running \<Rightarrow>
               (s\<lparr>nc_graphs := (nc_graphs s)(gid \<mapsto> g\<lparr>g_status := Cancelled\<rparr>),
                  nc_cluster := update_node_state (self_node_id (nc_cluster s)) Ready (nc_cluster s)\<rparr>, Inr ())
           | _ \<Rightarrow> (s, Inl (InvalidState ''Graph is not running''))))"

text \<open>\<open>es\<close> is the order of the nodes once the failed node has been marked.\<close>

definition handle_node_failure ::
  "(node_id \<times> cluster_node) list \<Rightarrow> node_id \<Rightarrow> graph_id \<Rightarrow> node_control \<Rightarrow> node_control \<times> node_id list result" where
  "handle_node_failure es failed gid s =
     (let s1 = s\<lparr>nc_cluster := update_node_state failed (NodeFailed ''Node failed'') (nc_cluster s)\<rparr>;
          new_allocation = allocate_nodes es 1
      in (mark_executing gid new_allocation s1, Inr new_allocation))"

definition handle_node_rejoin :: "node_id \<Rightarrow> node_control \<Rightarrow> node_control" where
  "handle_node_rejoin nid s = s\<lparr>nc_cluster := handle_rejoin nid (nc_cluster s)\<rparr>"

section \<open>The quota gate\<close>

definition quota_used :: "node_control \<Rightarrow> string \<Rightarrow> nat" where
  "quota_used s tenant = (case nc_tenant_quotas s tenant of None \<Rightarrow> 0 | Some q \<Rightarrow> unat (tq_active_graphs q))"

definition quota_limit :: "node_control \<Rightarrow> string \<Rightarrow> nat option" where
  "quota_limit s tenant = map_option (\<lambda>q. unat (tq_max_concurrent_graphs q)) (nc_tenant_quotas s tenant)"

definition quotas_ok :: "node_control \<Rightarrow> bool" where
  "quotas_ok s \<longleftrightarrow> (\<forall>q \<in> ran (nc_tenant_quotas s). tq_active_graphs q \<le> tq_max_concurrent_graphs q)"

lemma validate_submission_cases:
  obtains (no_credentials) "nc_auth_enabled s" "sr_credentials req = None"
      "validate_submission req s = (s, Inl AuthenticationRequired)"
  | (no_quota) "nc_auth_enabled s \<longrightarrow> sr_credentials req \<noteq> None" "nc_tenant_quotas s (sr_tenant_id req) = None"
      "validate_submission req s = (s, Inr ())"
  | (full) q where "nc_auth_enabled s \<longrightarrow> sr_credentials req \<noteq> None"
      "nc_tenant_quotas s (sr_tenant_id req) = Some q" "tq_max_concurrent_graphs q \<le> tq_active_graphs q"
      "validate_submission req s = (s, Inl (QuotaExceeded (''Tenant '' @ sr_tenant_id req @ '' has reached maximum concurrent graphs'')))"
  | (counted) q where "nc_auth_enabled s \<longrightarrow> sr_credentials req \<noteq> None"
      "nc_tenant_quotas s (sr_tenant_id req) = Some q" "tq_active_graphs q < tq_max_concurrent_graphs q"
      "validate_submission req s = (s\<lparr>nc_tenant_quotas := (nc_tenant_quotas s)(sr_tenant_id req \<mapsto>
         q\<lparr>tq_active_graphs := tq_active_graphs q + 1\<rparr>)\<rparr>, Inr ())"
proof (cases "nc_auth_enabled s \<and> sr_credentials req = None")
  case True
  then show thesis using no_credentials by (simp add: validate_defs)
next
  case auth: False
  show thesis
  proof (cases "nc_tenant_quotas s (sr_tenant_id req)")
    case None
    with auth show thesis by (intro no_quota) (auto simp: validate_defs)
  next
    case (Some q)
    show thesis
    proof (cases "tq_max_concurrent_graphs q \<le> tq_active_graphs q")
      case True
      with auth Some show thesis by (intro full) (auto simp: validate_defs)
    next
      case False
      with auth Some show thesis by (intro counted) (auto simp: validate_defs)
    qed
  qed
qed

definition admit_request :: "submission_request \<Rightarrow> node_control \<Rightarrow> node_control option" where
  "admit_request req s = (case validate_submission req s of (s', Inr _) \<Rightarrow> Some s' | (_, Inl _) \<Rightarrow> None)"

text \<open>For the interface a tenant is represented by a request of that tenant with credentials.\<close>

definition tenant_request :: "string \<Rightarrow> submission_request" where
  "tenant_request tenant = \<lparr>sr_submission_id = [], sr_tenant_id = tenant, sr_config = submission_config_default,
     sr_idempotency_key = None, sr_credentials = Some \<lparr>cc_cert = None, cc_key = None, cc_token = None\<rparr>\<rparr>"

lemma admit_request_cases:
  assumes "admit_request req s = Some s'"
  obtains (no_quota) "nc_tenant_quotas s (sr_tenant_id req) = None" "s' = s"
  | (counted) q where "nc_tenant_quotas s (sr_tenant_id req) = Some q" "tq_active_graphs q < tq_max_concurrent_graphs q"
      "s' = s\<lparr>nc_tenant_quotas := (nc_tenant_quotas s)(sr_tenant_id req \<mapsto>
         q\<lparr>tq_active_graphs := tq_active_graphs q + 1\<rparr>)\<rparr>"
  using assms by (cases rule: validate_submission_cases [of s req]) (auto simp: admit_request_def)

lemma admit_request_used:
  assumes "admit_request req s = Some s'"
  shows "quota_limit s' = quota_limit s"
    and "quota_used s' tenant =
      quota_used s tenant + (if tenant = sr_tenant_id req \<and> quota_limit s tenant \<noteq> None then 1 else 0)"
    and "quota_limit s (sr_tenant_id req) = Some l \<Longrightarrow> quota_used s (sr_tenant_id req) < l"
  using assms
  by (cases rule: admit_request_cases;
      auto simp: quota_used_def quota_limit_def fun_eq_iff unat_inc_below word_less_nat_alt)+

interpretation qg: quota_gate "\<lambda>tenant. admit_request (tenant_request tenant)" quota_used quota_limit
  by unfold_locales (auto dest: admit_request_used simp: admit_request_used tenant_request_def)

section \<open>What a submission does\<close>

lemma mark_executing_claim:
  "mark_executing gid ks s = s\<lparr>nc_cluster := cl.claim ks (Executing gid) (nc_cluster s)\<rparr>"
  by (simp add: mark_executing_def claim_fold)

lemma control_submit_accepted:
  assumes "admit_request req s = Some s1"
  shows "control_submit plus_minutes gid now es req s =
    (let allocated = allocate_nodes es (unwrap_or (sc_required_nodes (sr_config req)) 1) in
     (s1\<lparr>nc_graphs := (nc_graphs s)(gid \<mapsto>
            create_distributed_graph gid (Some (sr_tenant_id req)) (request_graph_config req)),
         nc_submissions := (nc_submissions s)(sr_submission_id req \<mapsto> req),
         nc_cluster := cl.claim allocated (Executing gid) (nc_cluster s)\<rparr>,
      Inr \<lparr>ar_graph_id = gid, ar_allocated_nodes = allocated, ar_estimated_completion = plus_minutes now 5\<rparr>))"
  using assms
  by (cases rule: validate_submission_cases [of s req])
     (auto simp: admit_request_def control_submit_def mark_executing_claim Let_def)

lemma control_submit_rejected:
  assumes "admit_request req s = None"
  shows "\<exists>e. control_submit plus_minutes gid now es req s = (s, Inl e)"
  using assms
  by (cases rule: validate_submission_cases [of s req]) (auto simp: admit_request_def control_submit_def)

text \<open>What marking an allocation does: its nodes were ready and execute the graph afterwards.\<close>

lemma allocation_marks:
  assumes "cluster_order es c" "nid \<in> set (allocate_nodes es required)"
  shows "map_option cn_state (nodes c nid) = Some Ready"
    and "map_option cn_state (nodes (cl.claim (allocate_nodes es required) (Executing gid) c) nid) = Some (Executing gid)"
  using cl.alloc_free [OF assms(1) assms(2) [unfolded allocate_nodes_def]] cl.claim_marks [OF assms(2)] by fastforce+

lemma request_graph_config_fields:
  "request_graph_config req =
    \<lparr>gc_max_memory_mb = (case sc_max_memory_mb (sr_config req) of None \<Rightarrow> 512 | Some m \<Rightarrow> m),
     gc_max_fuel = (case sc_max_fuel (sr_config req) of None \<Rightarrow> 1000000 | Some f \<Rightarrow> f),
     gc_enable_simd = (sc_enable_simd (sr_config req) \<noteq> Some False),
     gc_output_path = sc_output_path (sr_config req)\<rparr>"
  by (auto simp: request_graph_config_def unwrap_or_def split: option.splits)

text \<open>
  C5: An accepted submission changes the following and nothing else. It stores the graph as
  pending with the four stages and the request's configuration (defaults where it has none), and
  the request under its id; it allocates as many distinct nodes as the request requires or as
  there are ready ones, all of them ready before, and marks exactly these as executing the graph,
  which leaves their capacity and load alone; it counts one more active graph for the tenant if
  the tenant has a quota, which stayed below its maximum, and for no other tenant. The answer is
  the id of the graph, the allocated nodes, and an estimated completion in five minutes.
\<close>

theorem submit_accepts:
  assumes "nc_auth_enabled s \<longrightarrow> sr_credentials req \<noteq> None"
    and "\<forall>q. nc_tenant_quotas s (sr_tenant_id req) = Some q \<longrightarrow> tq_active_graphs q < tq_max_concurrent_graphs q"
    and "cluster_order es (nc_cluster s)"
  shows "\<exists>al. control_submit plus_minutes gid now es req s =
     (s\<lparr>nc_cluster := (nc_cluster s)\<lparr>nodes := (\<lambda>nid. if nid \<in> set al
            then map_option (\<lambda>n. n\<lparr>cn_state := Executing gid\<rparr>) (nodes (nc_cluster s) nid) else nodes (nc_cluster s) nid)\<rparr>,
        nc_graphs := (nc_graphs s)(gid \<mapsto> \<lparr>g_id = gid, g_status = Pending, g_stages = stage_all,
          g_tenant_id = Some (sr_tenant_id req), g_config =
            \<lparr>gc_max_memory_mb = (case sc_max_memory_mb (sr_config req) of None \<Rightarrow> 512 | Some m \<Rightarrow> m),
             gc_max_fuel = (case sc_max_fuel (sr_config req) of None \<Rightarrow> 1000000 | Some f \<Rightarrow> f),
             gc_enable_simd = (sc_enable_simd (sr_config req) \<noteq> Some False),
             gc_output_path = sc_output_path (sr_config req)\<rparr>\<rparr>),
        nc_submissions := (nc_submissions s)(sr_submission_id req \<mapsto> req),
        nc_tenant_quotas := (case nc_tenant_quotas s (sr_tenant_id req) of
            None \<Rightarrow> nc_tenant_quotas s
          | Some q \<Rightarrow> (nc_tenant_quotas s)(sr_tenant_id req \<mapsto> q\<lparr>tq_active_graphs := tq_active_graphs q + 1\<rparr>))\<rparr>,
      Inr \<lparr>ar_graph_id = gid, ar_allocated_nodes = al, ar_estimated_completion = plus_minutes now 5\<rparr>)
    \<and> distinct al
    \<and> length al = min (case sc_required_nodes (sr_config req) of None \<Rightarrow> 1 | Some n \<Rightarrow> unat n)
          (card {nid. \<exists>n. nodes (nc_cluster s) nid = Some n \<and> cn_state n = Ready})
    \<and> (\<forall>nid \<in> set al. \<exists>n. nodes (nc_cluster s) nid = Some n \<and> cn_state n = Ready)"
proof -
  let ?al = "allocate_nodes es (unwrap_or (sc_required_nodes (sr_config req)) 1)"
  obtain s1 where adm: "admit_request req s = Some s1"
    using assms(1,2) by (cases rule: validate_submission_cases [of s req]) (auto simp: admit_request_def)
  have s1: "s1 = s\<lparr>nc_tenant_quotas := (case nc_tenant_quotas s (sr_tenant_id req) of
            None \<Rightarrow> nc_tenant_quotas s
          | Some q \<Rightarrow> (nc_tenant_quotas s)(sr_tenant_id req \<mapsto> q\<lparr>tq_active_graphs := tq_active_graphs q + 1\<rparr>))\<rparr>"
    using adm by (cases rule: admit_request_cases) simp_all
  have "distinct ?al" "length ?al =
      min (case sc_required_nodes (sr_config req) of None \<Rightarrow> 1 | Some n \<Rightarrow> unat n)
        (card {nid. \<exists>n. nodes (nc_cluster s) nid = Some n \<and> cn_state n = Ready})"
    using assms(3) by (auto simp: length_allocate_nodes distinct_allocate_nodes unwrap_or_def cluster_order_def
        split: option.splits)
  moreover have "\<forall>nid \<in> set ?al. \<exists>n. nodes (nc_cluster s) nid = Some n \<and> cn_state n = Ready"
    using cl.alloc_free [OF assms(3)] by (auto simp: allocate_nodes_def)
  ultimately show ?thesis
    by (intro exI [of _ ?al]) (simp add: control_submit_accepted [OF adm] Let_def claim_nodes s1
        request_graph_config_fields create_distributed_graph_def stage_all_def)
qed

text \<open>
  C6: A rejected submission changes nothing, and says why: credentials missing while
  authentication is on, or the tenant at its maximum.
\<close>

theorem submit_rejects:
  assumes "nc_auth_enabled s \<and> sr_credentials req = None
    \<or> (\<exists>q. nc_tenant_quotas s (sr_tenant_id req) = Some q \<and> tq_max_concurrent_graphs q \<le> tq_active_graphs q)"
  shows "control_submit plus_minutes gid now es req s =
    (s, Inl (if nc_auth_enabled s \<and> sr_credentials req = None then AuthenticationRequired
       else QuotaExceeded (''Tenant '' @ sr_tenant_id req @ '' has reached maximum concurrent graphs'')))"
  using assms
  by (cases rule: validate_submission_cases [of s req]) (auto simp: control_submit_def)

text \<open>Concrete states for the witnesses.\<close>

definition sample_control :: node_control where
  "sample_control = node_control_new (cluster_new (NodeId ''n''))"

definition sample_order :: "(node_id \<times> cluster_node) list" where
  "sample_order = [(NodeId ''n'', \<lparr>cn_id = NodeId ''n'', cn_state = Ready,
     cn_capacity = node_capacity_default, cn_current_load = flit 0\<rparr>)]"

definition sample_quota :: "u32 \<Rightarrow> tenant_quota_info" where
  "sample_quota m = \<lparr>tq_tenant_id = ''t'', tq_max_concurrent_graphs = m, tq_max_memory_mb = 1,
     tq_max_fuel = 1, tq_active_graphs = 0\<rparr>"

lemmas sample_defs = sample_control_def sample_order_def sample_quota_def node_control_new_def
  cluster_new_def tenant_request_def submission_config_default_def register_tenant_def

lemma sample_cluster_order: "cluster_order sample_order (nc_cluster sample_control)"
  using cluster_new_wf [of "NodeId ''n''"]
  by (auto simp: cluster_order_def iterates_def sample_defs fun_eq_iff)

theorem submit_accepts_witness:
  "\<exists>s' al. control_submit (+) (GraphId 7) 10 sample_order (tenant_request ''t'') (register_tenant (sample_quota 2) sample_control)
      = (s', Inr \<lparr>ar_graph_id = GraphId 7, ar_allocated_nodes = al, ar_estimated_completion = 15\<rparr>)
    \<and> length al = 1 \<and> map_option g_status (nc_graphs s' (GraphId 7)) = Some Pending
    \<and> map_option tq_active_graphs (nc_tenant_quotas s' ''t'') = Some 1"
proof -
  let ?s = "register_tenant (sample_quota 2) sample_control" and ?r = "tenant_request ''t''"
  have 1: "nc_auth_enabled ?s \<longrightarrow> sr_credentials ?r \<noteq> None"
    and 2: "\<forall>q. nc_tenant_quotas ?s (sr_tenant_id ?r) = Some q \<longrightarrow> tq_active_graphs q < tq_max_concurrent_graphs q"
    by (simp_all add: sample_defs)
  have "nc_cluster ?s = nc_cluster sample_control" by (simp add: register_tenant_def)
  then have 3: "cluster_order sample_order (nc_cluster ?s)" using sample_cluster_order by simp
  have "{nid. \<exists>n. nodes (nc_cluster ?s) nid = Some n \<and> cn_state n = Ready} = {NodeId ''n''}"
    by (auto simp: sample_defs)
  then have card: "card {nid. \<exists>n. nodes (nc_cluster ?s) nid = Some n \<and> cn_state n = Ready} = 1" by simp
  have fields: "sc_required_nodes (sr_config ?r) = Some 1" "sr_tenant_id ?r = ''t''"
    "nc_tenant_quotas ?s ''t'' = Some (sample_quota 2)" "tq_active_graphs (sample_quota 2) = 0"
    by (simp_all add: sample_defs)
  show ?thesis
    using submit_accepts [OF 1 2 3, of "(+)" "GraphId 7" 10] unfolding card fields by (auto simp: fields)
qed

theorem submit_rejects_witness:
  "control_submit (+) (GraphId 7) 0 sample_order (tenant_request ''t'') (register_tenant (sample_quota 0) sample_control)
    = (register_tenant (sample_quota 0) sample_control,
       Inl (QuotaExceeded ''Tenant t has reached maximum concurrent graphs''))"
proof -
  let ?s = "register_tenant (sample_quota 0) sample_control" and ?r = "tenant_request ''t''"
  have "nc_auth_enabled ?s \<and> sr_credentials ?r = None
    \<or> (\<exists>q. nc_tenant_quotas ?s (sr_tenant_id ?r) = Some q \<and> tq_max_concurrent_graphs q \<le> tq_active_graphs q)"
    by (simp add: sample_defs)
  from submit_rejects [OF this, of "(+)" "GraphId 7" 0 sample_order] show ?thesis
    by (simp add: tenant_request_def)
qed

section \<open>Reachable states of the control plane\<close>

datatype control_event =
    EvSetAuth bool
  | EvRegisterTenant tenant_quota_info
  | EvRegisterNode cluster_node
  | EvSubmit graph_id time "(node_id \<times> cluster_node) list" submission_request
  | EvCancel graph_id
  | EvNodeFailure "(node_id \<times> cluster_node) list" node_id graph_id
  | EvNodeRejoin node_id

fun apply_event :: "(time \<Rightarrow> int \<Rightarrow> time) \<Rightarrow> control_event \<Rightarrow> node_control \<Rightarrow> node_control" where
  "apply_event pm (EvSetAuth b) s = set_auth_enabled b s"
| "apply_event pm (EvRegisterTenant q) s = register_tenant q s"
| "apply_event pm (EvRegisterNode n) s = s\<lparr>nc_cluster := register_node n (nc_cluster s)\<rparr>"
| "apply_event pm (EvSubmit gid now es req) s = fst (control_submit pm gid now es req s)"
| "apply_event pm (EvCancel gid) s = fst (control_cancel (\<lambda>_. []) gid s)"
| "apply_event pm (EvNodeFailure es nid gid) s = fst (handle_node_failure es nid gid s)"
| "apply_event pm (EvNodeRejoin nid) s = handle_node_rejoin nid s"

text \<open>
  The environment's side: an iteration order is one of the map iterated, and a tenant is
  registered within its own maximum.
\<close>

fun event_ok :: "control_event \<Rightarrow> node_control \<Rightarrow> bool" where
  "event_ok (EvRegisterTenant q) s = (tq_active_graphs q \<le> tq_max_concurrent_graphs q)"
| "event_ok (EvSubmit gid now es req) s = iterates es (nodes (nc_cluster s))"
| "event_ok (EvNodeFailure es nid gid) s =
     iterates es (nodes (update_node_state nid (NodeFailed ''Node failed'') (nc_cluster s)))"
| "event_ok _ s = True"

inductive control_step :: "(time \<Rightarrow> int \<Rightarrow> time) \<Rightarrow> node_control \<Rightarrow> node_control \<Rightarrow> bool" for pm where
  event: "event_ok ev s \<Longrightarrow> control_step pm s (apply_event pm ev s)"

inductive_cases control_stepE: "control_step pm s t"

definition control_init :: "node_control \<Rightarrow> bool" where
  "control_init s \<longleftrightarrow> (\<exists>nid. s = node_control_new (cluster_new nid))"

definition control_inv :: "node_control \<Rightarrow> bool" where
  "control_inv s \<longleftrightarrow> quotas_ok s \<and> cluster_wf (nc_cluster s)
     \<and> (\<forall>gid g. nc_graphs s gid = Some g \<longrightarrow> g_id g = gid \<and> g_status g = Pending)"

lemma control_init_inv: "control_init s \<Longrightarrow> control_inv s"
  by (auto simp: control_init_def control_inv_def quotas_ok_def node_control_new_def cluster_new_wf)

lemma mark_executing_inv: "control_inv s \<Longrightarrow> control_inv (mark_executing gid ks s)"
  by (auto simp: control_inv_def quotas_ok_def mark_executing_claim claim_wf)

lemma admit_request_quotas_ok: "quotas_ok s \<Longrightarrow> admit_request req s = Some s1 \<Longrightarrow> quotas_ok s1"
  by (erule admit_request_cases) (auto simp: quotas_ok_def ran_def unat_inc_below split: if_splits)

lemma admit_request_frame:
  "admit_request req s = Some s1 \<Longrightarrow> nc_cluster s1 = nc_cluster s \<and> nc_graphs s1 = nc_graphs s"
  by (erule admit_request_cases) auto

lemma control_submit_inv:
  assumes "control_inv s"
  shows "control_inv (fst (control_submit pm gid now es req s))"
proof (cases "admit_request req s")
  case None
  then show ?thesis using control_submit_rejected [OF None, of pm gid now es] assms by auto
next
  case (Some s1)
  then have "quotas_ok s1" using assms admit_request_quotas_ok by (auto simp: control_inv_def)
  then show ?thesis
    using assms
    by (auto simp: control_submit_accepted [OF Some] control_inv_def quotas_ok_def claim_wf Let_def
        create_distributed_graph_def)
qed

lemma control_cancel_pending:
  "control_inv s \<Longrightarrow> control_cancel show_uuid gid s =
     (s, Inl (if nc_graphs s gid = None then GraphNotFound (show_uuid (graph_uuid gid))
       else InvalidState ''Graph is not running''))"
  by (auto simp: control_inv_def control_cancel_def split: option.splits)

lemma handle_node_failure_inv: "control_inv s \<Longrightarrow> control_inv (fst (handle_node_failure es nid gid s))"
  by (auto simp: handle_node_failure_def Let_def control_inv_def quotas_ok_def mark_executing_claim
      claim_wf update_node_state_wf)

lemma apply_event_inv: "control_inv s \<Longrightarrow> event_ok ev s \<Longrightarrow> control_inv (apply_event pm ev s)"
  by (cases ev)
     (auto simp: control_submit_inv handle_node_failure_inv control_cancel_pending,
      auto simp: control_inv_def quotas_ok_def set_auth_enabled_def register_tenant_def ran_def
        handle_node_rejoin_def cluster_ops_wf)

interpretation nc: invariant_system control_init "control_step pm" control_inv for pm
proof unfold_locales
  show "control_inv s" if "control_init s" for s
    using that by (rule control_init_inv)
  show "control_inv t" if "control_inv s" "control_step pm s t" for s t
    using that by (auto elim!: control_stepE intro: apply_event_inv)
qed

text \<open>
  A graph of the control plane is \<open>Pending\<close> in every reachable state, since no operation
  ever writes \<open>Running\<close>; so \<open>cancel\<close> always fails, with an invalid-state error for every
  graph it knows, and changes nothing.
\<close>

theorem control_cancel_never_succeeds:
  assumes "reach control_init (control_step pm) s"
  shows "(\<forall>g. nc_graphs s gid = Some g \<longrightarrow> g_status g = Pending)
    \<and> control_cancel show_uuid gid s =
        (s, Inl (if nc_graphs s gid = None then GraphNotFound (show_uuid (graph_uuid gid))
           else InvalidState ''Graph is not running''))"
  using nc.reach_inv [OF assms] control_cancel_pending by (auto simp: control_inv_def)

lemma reach_sample_tenant:
  "reach control_init (control_step pm) (register_tenant (sample_quota 1) sample_control)"
proof -
  have "reach control_init (control_step pm) sample_control"
    by (rule reach_init) (auto simp: control_init_def sample_control_def)
  from reach_step [OF this control_step.event [of "EvRegisterTenant (sample_quota 1)"]]
  show ?thesis by (simp add: sample_quota_def)
qed

lemma reach_sample_submitted:
  "reach control_init (control_step (+)) (apply_event (+) (EvSubmit (GraphId 7) 0 sample_order (tenant_request ''t''))
     (register_tenant (sample_quota 1) sample_control))"
proof (rule reach_step [OF reach_sample_tenant control_step.event])
  show "event_ok (EvSubmit (GraphId 7) 0 sample_order (tenant_request ''t'')) (register_tenant (sample_quota 1) sample_control)"
    using sample_cluster_order by (simp add: cluster_order_def register_tenant_def)
qed

theorem control_cancel_never_succeeds_witness:
  "let s = apply_event (+) (EvSubmit (GraphId 7) 0 sample_order (tenant_request ''t''))
       (register_tenant (sample_quota 1) sample_control)
   in nc_graphs s (GraphId 7) \<noteq> None
     \<and> control_cancel (\<lambda>_. []) (GraphId 7) s = (s, Inl (InvalidState ''Graph is not running''))"
proof -
  let ?s = "apply_event (+) (EvSubmit (GraphId 7) 0 sample_order (tenant_request ''t''))
    (register_tenant (sample_quota 1) sample_control)"
  have "nc_graphs ?s (GraphId 7) \<noteq> None"
    by (simp add: control_submit_def validate_defs sample_defs mark_executing_def Let_def)
  with control_cancel_never_succeeds [OF reach_sample_submitted, of "GraphId 7" "\<lambda>_. []"] show ?thesis
    by (simp only: Let_def) simp
qed

section \<open>Quotas over a run\<close>

definition is_accepted :: "(time \<Rightarrow> int \<Rightarrow> time) \<Rightarrow> string \<Rightarrow> control_event \<Rightarrow> node_control \<Rightarrow> bool" where
  "is_accepted pm tenant ev s =
     (case ev of
        EvSubmit gid now es req \<Rightarrow> sr_tenant_id req = tenant \<and> \<not> isl (snd (control_submit pm gid now es req s))
      | _ \<Rightarrow> False)"

text \<open>The tenant's submissions answered with \<open>Ok\<close> in a run.\<close>

fun accepted :: "(time \<Rightarrow> int \<Rightarrow> time) \<Rightarrow> string \<Rightarrow> control_event list \<Rightarrow> node_control \<Rightarrow> nat" where
  "accepted pm tenant [] s = 0"
| "accepted pm tenant (ev # evs) s =
     (if is_accepted pm tenant ev s then 1 else 0) + accepted pm tenant evs (apply_event pm ev s)"

lemma control_cancel_quotas [simp]:
  "nc_tenant_quotas (fst (control_cancel show_uuid gid s)) = nc_tenant_quotas s"
  by (simp add: control_cancel_def split: option.splits graph_status.splits)

lemma handle_node_failure_quotas [simp]:
  "nc_tenant_quotas (fst (handle_node_failure es nid gid s)) = nc_tenant_quotas s"
  by (simp add: handle_node_failure_def mark_executing_def Let_def)

lemma quota_cong:
  "nc_tenant_quotas s = nc_tenant_quotas s' \<Longrightarrow> quota_used s t = quota_used s' t \<and> quota_limit s t = quota_limit s' t"
  by (simp add: quota_used_def quota_limit_def)

lemma control_submit_used:
  assumes "quota_limit s tenant = Some l" "quota_used s tenant \<le> l"
  shows "quota_limit (fst (control_submit pm gid now es req s)) tenant = Some l
    \<and> quota_used (fst (control_submit pm gid now es req s)) tenant =
       quota_used s tenant + (if is_accepted pm tenant (EvSubmit gid now es req) s then 1 else 0)
    \<and> quota_used (fst (control_submit pm gid now es req s)) tenant \<le> l"
proof (cases "admit_request req s")
  case None
  then show ?thesis
    using control_submit_rejected [OF None, of pm gid now es] assms by (auto simp: is_accepted_def)
next
  case (Some s1)
  let ?s' = "fst (control_submit pm gid now es req s)"
  have q: "quota_used ?s' tenant = quota_used s1 tenant" "quota_limit ?s' tenant = quota_limit s1 tenant"
    by (simp_all add: control_submit_accepted [OF Some] Let_def quota_used_def quota_limit_def)
  have "is_accepted pm tenant (EvSubmit gid now es req) s \<longleftrightarrow> sr_tenant_id req = tenant"
    by (simp add: is_accepted_def control_submit_accepted [OF Some] Let_def)
  then show ?thesis
    using admit_request_used [OF Some] assms unfolding q by (cases "sr_tenant_id req = tenant") fastforce+
qed

lemma event_used:
  assumes "quota_limit s tenant = Some l" "quota_used s tenant \<le> l"
    and "\<And>q. ev = EvRegisterTenant q \<Longrightarrow> tq_tenant_id q \<noteq> tenant"
  shows "quota_limit (apply_event pm ev s) tenant = Some l
    \<and> quota_used (apply_event pm ev s) tenant = quota_used s tenant + (if is_accepted pm tenant ev s then 1 else 0)
    \<and> quota_used (apply_event pm ev s) tenant \<le> l"
proof (cases ev)
  case (EvSubmit gid now es req)
  then show ?thesis using control_submit_used [OF assms(1,2), of pm gid now es req] by simp
next
  case (EvRegisterTenant q)
  then show ?thesis
    using assms by (simp add: is_accepted_def register_tenant_def quota_used_def quota_limit_def)
qed (use assms in \<open>simp_all add: is_accepted_def set_auth_enabled_def handle_node_rejoin_def
      quota_used_def quota_limit_def\<close>)

text \<open>
  C38: A tenant's active-graph counter only grows. Whatever happens in a run in which the tenant
  is not registered again, cancellations, node failures and rejoins included, its counter at
  the end is its counter at the start plus its accepted submissions; so the tenant can have no
  more submissions accepted, over the whole life of the control plane, than its maximum of
  concurrent graphs leaves room for at the start.
\<close>

theorem quota_never_released:
  assumes "quota_limit s tenant = Some l" and "quota_used s tenant \<le> l"
    and "\<forall>q. EvRegisterTenant q \<in> set evs \<longrightarrow> tq_tenant_id q \<noteq> tenant"
  shows "quota_used (fold (apply_event pm) evs s) tenant = quota_used s tenant + accepted pm tenant evs s
    \<and> quota_used s tenant + accepted pm tenant evs s \<le> l"
  using assms
proof (induction evs arbitrary: s)
  case (Cons ev evs)
  have step: "quota_limit (apply_event pm ev s) tenant = Some l"
    "quota_used (apply_event pm ev s) tenant = quota_used s tenant + (if is_accepted pm tenant ev s then 1 else 0)"
    "quota_used (apply_event pm ev s) tenant \<le> l"
    using event_used [OF Cons.prems(1,2), of ev pm] Cons.prems(3) by auto
  show ?case using Cons.IH [OF step(1,3)] Cons.prems(3) step(2) by auto
qed simp

theorem quota_never_released_witness:
  "let s = register_tenant (sample_quota 1) sample_control;
       evs = [EvSubmit (GraphId 7) 0 sample_order (tenant_request ''t''), EvCancel (GraphId 7),
              EvNodeRejoin (NodeId ''n''), EvSubmit (GraphId 8) 0 sample_order (tenant_request ''t'')]
   in quota_used (fold (apply_event (+)) evs s) ''t'' = accepted (+) ''t'' evs s \<and> accepted (+) ''t'' evs s \<le> 1"
proof -
  let ?s = "register_tenant (sample_quota 1) sample_control"
  let ?evs = "[EvSubmit (GraphId 7) 0 sample_order (tenant_request ''t''), EvCancel (GraphId 7),
    EvNodeRejoin (NodeId ''n''), EvSubmit (GraphId 8) 0 sample_order (tenant_request ''t'')]"
  have l: "quota_limit ?s ''t'' = Some 1" and u: "quota_used ?s ''t'' = 0"
    by (simp_all add: quota_limit_def quota_used_def sample_defs)
  have "quota_used ?s ''t'' \<le> 1" by (simp only: u)
  moreover have "\<forall>q. EvRegisterTenant q \<in> set ?evs \<longrightarrow> tq_tenant_id q \<noteq> ''t''" by simp
  ultimately have "quota_used (fold (apply_event (+)) ?evs ?s) ''t'' = quota_used ?s ''t'' + accepted (+) ''t'' ?evs ?s
    \<and> quota_used ?s ''t'' + accepted (+) ''t'' ?evs ?s \<le> 1"
    by (rule quota_never_released [OF l])
  then show ?thesis unfolding u Let_def by (simp only: add_0)
qed

section \<open>Allocation over several submissions\<close>

text \<open>
  C8: Two submissions accepted one after the other never share a node: the second can only be
  given nodes that are ready, and the first has left its nodes executing. This holds for every
  iteration order either of them sees.
\<close>

theorem successive_allocations_disjoint:
  assumes "cluster_order es (nc_cluster s)" and "cluster_order es' (nc_cluster s')"
    and "control_submit pm gid now es req s = (s', Inr r)"
    and "control_submit pm gid' now' es' req' s' = (s'', Inr r')"
  shows "set (ar_allocated_nodes r) \<inter> set (ar_allocated_nodes r') = {}"
proof -
  obtain s1 where a1: "admit_request req s = Some s1"
    using control_submit_rejected [of req s pm gid now es] assms(3) by (cases "admit_request req s") auto
  obtain s2 where a2: "admit_request req' s' = Some s2"
    using control_submit_rejected [of req' s' pm gid' now' es'] assms(4) by (cases "admit_request req' s'") auto
  let ?n = "unat (unwrap_or (sc_required_nodes (sr_config req)) 1)"
  let ?al = "take ?n (get_ready_nodes es)"
  have r: "ar_allocated_nodes r = ?al" and c: "nc_cluster s' = cl.claim ?al (Executing gid) (nc_cluster s)"
    using assms(3) by (auto simp: control_submit_accepted [OF a1] Let_def allocate_nodes_def)
  have r': "ar_allocated_nodes r' = take (unat (unwrap_or (sc_required_nodes (sr_config req')) 1)) (get_ready_nodes es')"
    using assms(4) by (auto simp: control_submit_accepted [OF a2] Let_def allocate_nodes_def)
  show ?thesis
    unfolding r r' by (rule cl.claims_disjoint [OF assms(1,2), where x = "Executing gid"]) (simp_all add: c)
qed

lemma order_update:
  "cluster_order es c \<Longrightarrow>
   cluster_order (map (\<lambda>(k, n). (k, if k = nid then n\<lparr>cn_state := st\<rparr> else n)) es) (update_node_state nid st c)"
proof -
  assume "cluster_order es c"
  then have d: "distinct (map fst es)" and m: "map_of es = nodes c" and wf: "cluster_wf c"
    by (auto simp: cluster_order_def iterates_def)
  let ?es = "map (\<lambda>(k, n). (k, if k = nid then n\<lparr>cn_state := st\<rparr> else n)) es"
  have "map fst ?es = map fst es" by (simp add: comp_def case_prod_unfold)
  moreover have "map_of ?es k = map_option (\<lambda>n. if k = nid then n\<lparr>cn_state := st\<rparr> else n) (map_of es k)" for k
    by (induction es) auto
  then have "map_of ?es k = nodes (update_node_state nid st c) k" for k
    by (cases "k = nid"; cases "nodes c k") (auto simp: m update_node_state_def split: option.splits)
  then have "map_of ?es = nodes (update_node_state nid st c)" by blast
  ultimately have "iterates ?es (nodes (update_node_state nid st c))" using d by (intro iteratesI) (simp_all only:)
  with update_node_state_wf [OF wf] show ?thesis by (simp only: cluster_order_def)
qed

theorem successive_allocations_disjoint_witness:
  "let req = tenant_request ''t'';
       s1 = control_submit (+) (GraphId 7) 0 sample_order req sample_control;
       es' = map (\<lambda>(k, n). (k, if k = NodeId ''n'' then n\<lparr>cn_state := Executing (GraphId 7)\<rparr> else n)) sample_order;
       s2 = control_submit (+) (GraphId 8) 0 es' req (fst s1)
   in set (ar_allocated_nodes (projr (snd s1))) \<inter> set (ar_allocated_nodes (projr (snd s2))) = {}"
proof -
  let ?req = "tenant_request ''t''"
  let ?es' = "map (\<lambda>(k, n). (k, if k = NodeId ''n'' then n\<lparr>cn_state := Executing (GraphId 7)\<rparr> else n)) sample_order"
  let ?s1 = "control_submit (+) (GraphId 7) 0 sample_order ?req sample_control"
  let ?s2 = "control_submit (+) (GraphId 8) 0 ?es' ?req (fst ?s1)"
  have r1: "?s1 = (fst ?s1, Inr (projr (snd ?s1)))" and r2: "?s2 = (fst ?s2, Inr (projr (snd ?s2)))"
    by (simp_all add: control_submit_def validate_defs sample_defs Let_def mark_executing_def)
  have "nc_cluster (fst ?s1) = update_node_state (NodeId ''n'') (Executing (GraphId 7)) (nc_cluster sample_control)"
    by (simp add: control_submit_def validate_defs sample_defs Let_def mark_executing_def
        allocate_nodes_def get_ready_nodes_def unwrap_or_def)
  then have "cluster_order ?es' (nc_cluster (fst ?s1))" using order_update [OF sample_cluster_order] by simp
  from successive_allocations_disjoint [OF sample_cluster_order this r1 r2] show ?thesis by (simp only: Let_def)
qed

text \<open>
  A submission is accepted although the cluster has no ready node: it is answered with
  \<open>Ok\<close> and an empty allocation, and its graph is stored as pending.
\<close>

theorem submit_without_ready_nodes_succeeds:
  assumes "admit_request req s \<noteq> None" and "cluster_order es (nc_cluster s)"
    and "\<forall>nid n. nodes (nc_cluster s) nid = Some n \<longrightarrow> cn_state n \<noteq> Ready"
  shows "\<exists>s' r. control_submit pm gid now es req s = (s', Inr r) \<and> ar_allocated_nodes r = []
    \<and> nc_cluster s' = nc_cluster s \<and> map_option g_status (nc_graphs s' gid) = Some Pending"
proof -
  obtain s1 where adm: "admit_request req s = Some s1" using assms(1) by auto
  have "nid \<notin> set (get_ready_nodes es)" for nid
    using set_get_ready_nodes [of es "nc_cluster s" nid] assms(2,3) by (auto simp: cluster_order_def)
  then have "get_ready_nodes es = []" by (metis list.set_intros(1) neq_Nil_conv)
  then show ?thesis
    using admit_request_frame [OF adm]
    by (simp add: control_submit_accepted [OF adm] allocate_nodes_def create_distributed_graph_def)
qed

theorem submit_without_ready_nodes_succeeds_witness:
  "let s = sample_control\<lparr>nc_cluster := update_node_state (NodeId ''n'') ShuttingDown (nc_cluster sample_control)\<rparr>;
       es = map (\<lambda>(k, n). (k, if k = NodeId ''n'' then n\<lparr>cn_state := ShuttingDown\<rparr> else n)) sample_order
   in \<exists>s' r. control_submit (+) (GraphId 7) 0 es (tenant_request ''t'') s = (s', Inr r) \<and> ar_allocated_nodes r = []"
proof -
  let ?s = "sample_control\<lparr>nc_cluster := update_node_state (NodeId ''n'') ShuttingDown (nc_cluster sample_control)\<rparr>"
  have "admit_request (tenant_request ''t'') ?s \<noteq> None"
    by (simp add: admit_request_def validate_defs sample_defs)
  moreover have "\<forall>nid n. nodes (nc_cluster ?s) nid = Some n \<longrightarrow> cn_state n \<noteq> Ready"
    by (auto simp: update_node_state_def sample_defs split: if_splits)
  ultimately show ?thesis
    using submit_without_ready_nodes_succeeds [of "tenant_request ''t''" ?s] order_update [OF sample_cluster_order]
    by (fastforce simp: Let_def)
qed

section \<open>Node failure\<close>

text \<open>
  C10: When a node fails it is marked failed if it is known, and the graph moves to at most one
  node, never the failed one, that was ready before and is executing the graph after; when no
  node is given, no other node was ready. Every other node is untouched.
\<close>

theorem node_failure_reallocates:
  assumes "cluster_wf (nc_cluster s)"
    and "iterates es (nodes (update_node_state failed (NodeFailed ''Node failed'') (nc_cluster s)))"
    and "handle_node_failure es failed gid s = (s', Inr al)"
  shows "length al \<le> 1 \<and> failed \<notin> set al
    \<and> (\<forall>n. nodes (nc_cluster s) failed = Some n \<longrightarrow>
          nodes (nc_cluster s') failed = Some (n\<lparr>cn_state := NodeFailed ''Node failed''\<rparr>))
    \<and> (\<forall>nid \<in> set al. map_option cn_state (nodes (nc_cluster s) nid) = Some Ready
          \<and> map_option cn_state (nodes (nc_cluster s') nid) = Some (Executing gid))
    \<and> (al = [] \<longrightarrow> (\<forall>nid. nid \<noteq> failed \<longrightarrow> map_option cn_state (nodes (nc_cluster s) nid) \<noteq> Some Ready))
    \<and> (\<forall>nid. nid \<noteq> failed \<longrightarrow> nid \<notin> set al \<longrightarrow> nodes (nc_cluster s') nid = nodes (nc_cluster s) nid)"
proof -
  let ?c1 = "update_node_state failed (NodeFailed ''Node failed'') (nc_cluster s)"
  have ord: "cluster_order es ?c1"
    using assms(1,2) update_node_state_wf by (simp add: cluster_order_def)
  have al: "al = allocate_nodes es 1" and s': "nc_cluster s' = cl.claim al (Executing gid) ?c1"
    using assms(3) by (auto simp: handle_node_failure_def Let_def mark_executing_claim)
  note marks = allocation_marks [OF ord, of _ 1, folded al]
  have same: "nodes ?c1 nid = nodes (nc_cluster s) nid" if "nid \<noteq> failed" for nid
    using that by (rule cl.write_other)
  have failed: "failed \<notin> set al"
    using marks(1) [of failed] by (auto simp: update_node_state_def split: option.splits)
  moreover have "map_option cn_state (nodes (nc_cluster s) nid) = Some Ready
      \<and> map_option cn_state (nodes (nc_cluster s') nid) = Some (Executing gid)" if nid: "nid \<in> set al" for nid
    using marks [OF nid] same [of nid] nid failed unfolding s' by metis
  moreover have "map_option cn_state (nodes (nc_cluster s) nid) \<noteq> Some Ready" if "al = []" "nid \<noteq> failed" for nid
    using cl.alloc_short [OF ord, of 1 nid] that same [OF that(2)] by (auto simp: al allocate_nodes_def)
  moreover have "nodes (nc_cluster s') failed = Some (n\<lparr>cn_state := NodeFailed ''Node failed''\<rparr>)"
    if "nodes (nc_cluster s) failed = Some n" for n
    using cl.claim_untouched [OF failed, of "Executing gid" ?c1] that s' by (simp add: update_node_state_def)
  moreover have "nodes (nc_cluster s') nid = nodes (nc_cluster s) nid" if "nid \<noteq> failed" "nid \<notin> set al" for nid
    using cl.claim_untouched [OF that(2), of "Executing gid" ?c1] same [OF that(1)] s' by simp
  moreover have "length al \<le> 1" by (simp add: al allocate_nodes_def)
  ultimately show ?thesis by blast
qed

theorem node_failure_reallocates_witness:
  "let es = map (\<lambda>(k, n). (k, if k = NodeId ''x'' then n\<lparr>cn_state := NodeFailed ''Node failed''\<rparr> else n)) sample_order;
       r = handle_node_failure es (NodeId ''x'') (GraphId 7) sample_control
   in snd r = Inr [NodeId ''n'']
    \<and> map_option cn_state (nodes (nc_cluster (fst r)) (NodeId ''n'')) = Some (Executing (GraphId 7))"
proof -
  let ?es = "map (\<lambda>(k, n). (k, if k = NodeId ''x'' then n\<lparr>cn_state := NodeFailed ''Node failed''\<rparr> else n)) sample_order"
  let ?r = "handle_node_failure ?es (NodeId ''x'') (GraphId 7) sample_control"
  have wf: "cluster_wf (nc_cluster sample_control)"
    using sample_cluster_order by (simp add: cluster_order_def)
  have "cluster_order ?es (update_node_state (NodeId ''x'') (NodeFailed ''Node failed'') (nc_cluster sample_control))"
    by (rule order_update [OF sample_cluster_order])
  then have it: "iterates ?es (nodes (update_node_state (NodeId ''x'') (NodeFailed ''Node failed'') (nc_cluster sample_control)))"
    unfolding cluster_order_def by (rule conjunct1)
  have al: "snd ?r = Inr [NodeId ''n'']"
    by (simp add: handle_node_failure_def allocate_nodes_def get_ready_nodes_def sample_order_def Let_def)
  have "?r = (fst ?r, Inr [NodeId ''n''])" unfolding al [symmetric] by (rule surjective_pairing)
  from node_failure_reallocates [OF wf it this] al show ?thesis by (simp only: Let_def list.set) blast
qed

end
