(* ===== verification/Pipeline.thy ===== *)
theory Pipeline
  imports Prelude CoreTypes Cluster
begin

text \<open>
  The pipeline executor (\<open>kineplex-node/src/execution.rs\<close>): the table of running executions,
  the execution of a graph stage by stage, and cancellation. \<open>execute\<close> is asynchronous: each of
  its accesses to the table is one step, between which other requests run. \<open>pipeline_execute\<close>
  is the run without interruption. Proved: an execution ends, completed and with a time for
  every stage, whatever other requests are interleaved, also a successful cancellation of it.
\<close>

record execution_state =
  xs_graph_id :: graph_id
  xs_current_stage :: nat
  xs_started_at :: time
  xs_stage_start_times :: "string \<rightharpoonup> time"
  xs_node_id :: node_id

type_synonym running = "graph_id \<rightharpoonup> execution_state"

definition pipeline_new :: running where
  "pipeline_new = Map.empty"

definition initial_state :: "time \<Rightarrow> node_id \<Rightarrow> graph_id \<Rightarrow> execution_state" where
  "initial_state now node gid = \<lparr>xs_graph_id = gid, xs_current_stage = 0, xs_started_at = now,
     xs_stage_start_times = Map.empty, xs_node_id = node\<rparr>"

text \<open>One stage: it notes its start when the execution is still in the table, then sleeps.\<close>

definition execute_stage :: "time \<Rightarrow> graph_id \<Rightarrow> stage \<Rightarrow> running \<Rightarrow> running" where
  "execute_stage now gid stg r =
     (case r gid of
        None \<Rightarrow> r
      | Some st \<Rightarrow> r(gid \<mapsto> st\<lparr>xs_stage_start_times := (xs_stage_start_times st)(stage_debug stg \<mapsto> now)\<rparr>))"

definition completed_result :: "u64 \<Rightarrow> (string \<rightharpoonup> u64) \<Rightarrow> graph \<Rightarrow> execution_result" where
  "completed_result total_ms tms g =
     \<lparr>er_graph_id = g_id g, er_status = Completed, er_output = Some [],
      er_output_path = gc_output_path (g_config g),
      er_metrics = \<lparr>em_total_time_ms = total_ms, em_stage_times_ms = tms, em_memory_peak_bytes = 0,
        em_cpu_time_ms = 0, em_rows_processed = 0, em_nodes_involved = 1\<rparr>\<rparr>"

text \<open>
  The readings of the clock: \<open>begun i\<close> when stage \<open>i\<close> starts, \<open>elapsed i\<close> the milliseconds it took.
\<close>

fun stage_loop ::
  "(nat \<Rightarrow> time) \<Rightarrow> (nat \<Rightarrow> u64) \<Rightarrow> graph_id \<Rightarrow> nat \<Rightarrow> stage list \<Rightarrow> (string \<rightharpoonup> u64) \<Rightarrow> running \<Rightarrow> (string \<rightharpoonup> u64) \<times> running" where
  "stage_loop begun elapsed gid i [] tms r = (tms, r)"
| "stage_loop begun elapsed gid i (stg # rest) tms r =
     stage_loop begun elapsed gid (Suc i) rest (tms(stage_debug stg \<mapsto> elapsed i)) (execute_stage (begun i) gid stg r)"

definition pipeline_execute ::
  "time \<Rightarrow> (nat \<Rightarrow> time) \<Rightarrow> (nat \<Rightarrow> u64) \<Rightarrow> u64 \<Rightarrow> node_id \<Rightarrow> graph \<Rightarrow> running \<Rightarrow> running \<times> execution_result result" where
  "pipeline_execute now begun elapsed total_ms node g r =
     (case stage_loop begun elapsed (g_id g) 0 (g_stages g) Map.empty (r(g_id g \<mapsto> initial_state now node (g_id g))) of
        (tms, r') \<Rightarrow> (r'(g_id g := None), Inr (completed_result total_ms tms g)))"

definition get_execution_state :: "graph_id \<Rightarrow> running \<Rightarrow> execution_state option" where
  "get_execution_state gid r = r gid"

definition pipeline_cancel :: "(uuid \<Rightarrow> string) \<Rightarrow> graph_id \<Rightarrow> running \<Rightarrow> running \<times> unit result" where
  "pipeline_cancel show_uuid gid r =
     (case r gid of
        Some _ \<Rightarrow> (r(gid := None), Inr ())
      | None \<Rightarrow> (r, Inl (GraphNotFound (show_uuid (graph_uuid gid)))))"

definition replan_on_failure :: "node_id \<Rightarrow> graph_id \<Rightarrow> running \<Rightarrow> running \<times> unit result" where
  "replan_on_failure failed gid r = (r, Inr ())"

section \<open>Steps\<close>

datatype exec_pc =
    ExecInit
  | ExecStage nat "string \<rightharpoonup> u64"
  | ExecDone execution_result

text \<open>
  A step of \<open>execute\<close>: inserting the state, one stage, or removing the state and returning.
\<close>

definition exec_step ::
  "time \<Rightarrow> (nat \<Rightarrow> time) \<Rightarrow> (nat \<Rightarrow> u64) \<Rightarrow> u64 \<Rightarrow> node_id \<Rightarrow> graph \<Rightarrow> exec_pc \<times> running \<Rightarrow> exec_pc \<times> running" where
  "exec_step now begun elapsed total_ms node g = (\<lambda>(pc, r).
     (case pc of
        ExecInit \<Rightarrow> (ExecStage 0 Map.empty, r(g_id g \<mapsto> initial_state now node (g_id g)))
      | ExecStage i tms \<Rightarrow>
          (if i < length (g_stages g)
           then (ExecStage (Suc i) (tms(stage_debug (g_stages g ! i) \<mapsto> elapsed i)),
                 execute_stage (begun i) (g_id g) (g_stages g ! i) r)
           else (ExecDone (completed_result total_ms tms g), r(g_id g := None)))
      | ExecDone res \<Rightarrow> (pc, r)))"

text \<open>Uninterrupted, the steps are \<open>pipeline_execute\<close>.\<close>

lemma exec_steps_loop:
  "i + length rest = length (g_stages g) \<Longrightarrow> rest = drop i (g_stages g) \<Longrightarrow>
   (exec_step now begun elapsed total_ms node g ^^ Suc (length rest)) (ExecStage i tms, r) =
     (case stage_loop begun elapsed (g_id g) i rest tms r of
        (tms', r') \<Rightarrow> (ExecDone (completed_result total_ms tms' g), r'(g_id g := None)))"
proof (induction rest arbitrary: i tms r)
  case Nil
  then show ?case by (simp add: exec_step_def fun_upd_def)
next
  case (Cons stg rest)
  have lt: "i < length (g_stages g)" using Cons.prems(1) by (simp only: list.size)
  have stg: "g_stages g ! i = stg" using Cons.prems(2) by (metis nth_via_drop)
  have "rest = drop (Suc i) (g_stages g)" using Cons.prems(2) by (metis drop_Suc list.sel(3) tl_drop)
  moreover have "Suc i + length rest = length (g_stages g)" using Cons.prems(1) by simp
  moreover have "(exec_step now begun elapsed total_ms node g ^^ Suc (length (stg # rest))) (ExecStage i tms, r) =
      (exec_step now begun elapsed total_ms node g ^^ Suc (length rest))
        (exec_step now begun elapsed total_ms node g (ExecStage i tms, r))"
    by (simp only: length_Cons funpow_Suc_right [of "Suc (length rest)"] comp_apply)
  ultimately show ?case
    using Cons.IH stg lt by (simp only: exec_step_def [of now begun elapsed total_ms node g] prod.case exec_pc.case if_True stage_loop.simps)
qed

lemma pipeline_execute_steps:
  "(exec_step now begun elapsed total_ms node g ^^ (length (g_stages g) + 2)) (ExecInit, r) =
     (ExecDone (projr (snd (pipeline_execute now begun elapsed total_ms node g r))),
      fst (pipeline_execute now begun elapsed total_ms node g r))"
proof -
  let ?r = "r(g_id g \<mapsto> initial_state now node (g_id g))"
  have "(exec_step now begun elapsed total_ms node g ^^ (length (g_stages g) + 2)) (ExecInit, r) =
      (exec_step now begun elapsed total_ms node g ^^ Suc (length (g_stages g))) (ExecStage 0 Map.empty, ?r)"
    by (simp only: add_2_eq_Suc' funpow_Suc_right comp_apply) (simp add: exec_step_def)
  then show ?thesis
    using exec_steps_loop [of 0 "g_stages g" g] by (simp add: pipeline_execute_def split: prod.splits)
qed

section \<open>Interleaving with other requests\<close>

text \<open>Between its steps any other request may change the table.\<close>

datatype pipeline_event = Advance | Other "running \<Rightarrow> running"

fun pipeline_event_step :: "(exec_pc \<times> running \<Rightarrow> exec_pc \<times> running) \<Rightarrow> pipeline_event \<Rightarrow> exec_pc \<times> running \<Rightarrow> exec_pc \<times> running" where
  "pipeline_event_step f Advance s = f s"
| "pipeline_event_step f (Other h) s = (fst s, h (snd s))"

definition advances :: "pipeline_event list \<Rightarrow> nat" where
  "advances evs = length (filter (\<lambda>ev. ev = Advance) evs)"

definition progress :: "graph \<Rightarrow> nat \<Rightarrow> exec_pc \<Rightarrow> bool" where
  "progress g k pc \<longleftrightarrow>
     (if k = 0 then pc = ExecInit
      else if k \<le> Suc (length (g_stages g))
      then \<exists>tms. pc = ExecStage (k - 1) tms \<and> dom tms = stage_debug ` set (take (k - 1) (g_stages g))
      else \<exists>total_ms tms. pc = ExecDone (completed_result total_ms tms g) \<and> dom tms = stage_debug ` set (g_stages g))"

lemma exec_step_progress:
  assumes "progress g k pc"
  shows "progress g (Suc k) (fst (exec_step now begun elapsed total_ms node g (pc, r)))"
proof -
  consider (init) "k = 0" | (stage) "k \<noteq> 0" "k \<le> length (g_stages g)" | (final) "k = Suc (length (g_stages g))"
    | (after) "Suc (length (g_stages g)) < k" by linarith
  then show ?thesis
  proof cases
    case stage
    then obtain tms where "pc = ExecStage (k - 1) tms" "dom tms = stage_debug ` set (take (k - 1) (g_stages g))"
      using assms by (auto simp: progress_def)
    moreover obtain j where j: "k = Suc j" using stage(1) by (cases k) auto
    moreover have "set (take (Suc j) (g_stages g)) = insert (g_stages g ! j) (set (take j (g_stages g)))"
      using stage(2) j by (simp add: take_Suc_conv_app_nth)
    ultimately show ?thesis using stage by (simp add: exec_step_def progress_def)
  next
    case final
    then obtain tms where "pc = ExecStage (length (g_stages g)) tms" "dom tms = stage_debug ` set (g_stages g)"
      using assms by (auto simp: progress_def)
    then show ?thesis using final by (auto simp: exec_step_def progress_def)
  next
    case after
    then obtain t tms where "pc = ExecDone (completed_result t tms g)" "dom tms = stage_debug ` set (g_stages g)"
      using assms by (auto simp: progress_def)
    then show ?thesis using after by (auto simp: exec_step_def progress_def)
  qed (use assms in \<open>simp add: progress_def exec_step_def\<close>)
qed

lemma pipeline_run_progress:
  "progress g k pc \<Longrightarrow>
   progress g (k + advances evs) (fst (fold (pipeline_event_step (exec_step now begun elapsed total_ms node g)) evs (pc, r)))"
proof (induction evs arbitrary: k pc r)
  case Nil
  then show ?case by (simp add: advances_def)
next
  case (Cons ev evs)
  show ?case
  proof (cases ev)
    case Advance
    let ?s = "exec_step now begun elapsed total_ms node g (pc, r)"
    have "progress g (Suc k + advances evs)
        (fst (fold (pipeline_event_step (exec_step now begun elapsed total_ms node g)) evs (fst ?s, snd ?s)))"
      by (rule Cons.IH [OF exec_step_progress [OF Cons.prems]])
    then show ?thesis by (simp add: Advance advances_def)
  next
    case (Other h)
    then show ?thesis using Cons by (simp add: advances_def)
  qed
qed

text \<open>
  C26: However other requests change the table between its steps, an execution that is given its
  steps returns \<open>Completed\<close> with one time per stage of the graph. A cancellation after its first
  step is answered with \<open>Ok\<close> and removes it from the table, and does not change that.
\<close>

theorem cancelled_execution_completes:
  assumes "length (g_stages g) + 2 \<le> advances evs"
  shows "(\<exists>res. fst (fold (pipeline_event_step (exec_step now begun elapsed total_ms node g)) evs (ExecInit, r)) = ExecDone res
      \<and> is_success res \<and> er_graph_id res = g_id g
      \<and> dom (em_stage_times_ms (er_metrics res)) = stage_debug ` set (g_stages g))
    \<and> (let started = snd (exec_step now begun elapsed total_ms node g (ExecInit, r)) in
       snd (pipeline_cancel show_uuid (g_id g) started) = Inr ()
       \<and> get_execution_state (g_id g) (fst (pipeline_cancel show_uuid (g_id g) started)) = None)"
proof -
  have "progress g 0 ExecInit" by (simp add: progress_def)
  then have "progress g (0 + advances evs)
      (fst (fold (pipeline_event_step (exec_step now begun elapsed total_ms node g)) evs (ExecInit, r)))"
    by (rule pipeline_run_progress)
  then obtain t tms where
    "fst (fold (pipeline_event_step (exec_step now begun elapsed total_ms node g)) evs (ExecInit, r)) = ExecDone (completed_result t tms g)"
    "dom tms = stage_debug ` set (g_stages g)"
    using assms by (auto simp: progress_def)
  then show ?thesis
    by (simp add: exec_step_def pipeline_cancel_def get_execution_state_def completed_result_def is_success_def)
qed

theorem cancelled_execution_completes_witness:
  "let g = create_distributed_graph (GraphId 7) None graph_config_default;
       cancel = Other (\<lambda>r. fst (pipeline_cancel (\<lambda>_. []) (GraphId 7) r))
   in \<exists>res. fst (fold (pipeline_event_step (exec_step 0 (\<lambda>_. 1) (\<lambda>_. 2) 3 (NodeId ''n'') g))
        [Advance, cancel, Advance, Advance, cancel, Advance, Advance, Advance] (ExecInit, pipeline_new)) = ExecDone res
      \<and> is_success res"
proof -
  let ?g = "create_distributed_graph (GraphId 7) None graph_config_default"
  let ?cancel = "Other (\<lambda>r. fst (pipeline_cancel (\<lambda>_. []) (GraphId 7) r))"
  have "length (g_stages ?g) + 2 \<le> advances [Advance, ?cancel, Advance, Advance, ?cancel, Advance, Advance, Advance]"
    by (simp add: create_distributed_graph_def advances_def stage_all_def)
  from cancelled_execution_completes [OF this] show ?thesis unfolding Let_def by blast
qed

end
