(* ===== verification/TestsNode.thy ===== *)
theory TestsNode
  imports Control Pipeline
begin

text \<open>
  The unit tests of \<open>kineplex-node\<close> (\<open>lib.rs\<close>, \<open>control.rs\<close>, \<open>execution.rs\<close>) replayed on the
  model. Identifiers drawn at random, the clock and the iteration order \<open>es\<close> of the nodes are
  arguments; where a test submits twice over the same cluster each call gets its own order.
\<close>

section \<open>Cluster manager\<close>

definition capacity_tests :: "node_id \<Rightarrow> bool" where
  "capacity_tests nid \<longleftrightarrow>
     (let c = node_capacity_default in nc_max_concurrent c = 4 \<and> nc_memory_mb c = 2048 \<and> nc_cpu_cores c = 4)
     \<and> (let c = \<lparr>nc_max_concurrent = 8, nc_memory_mb = 4096, nc_cpu_cores = 8\<rparr> in
        nc_max_concurrent c = 8 \<and> nc_memory_mb c = 4096)
     \<and> cn_current_load \<lparr>cn_id = nid, cn_state = Ready, cn_capacity = node_capacity_default, cn_current_load = flit 0.5\<rparr>
        = flit 0.5"

type_synonym node_order = "(node_id \<times> cluster_node) list"

definition manager_tests :: "node_id \<Rightarrow> graph_id \<Rightarrow> node_order \<Rightarrow> bool" where
  "manager_tests nid gid es \<longleftrightarrow>
     (let c = cluster_new nid in
        nodes c \<noteq> Map.empty
        \<and> (iterates es (nodes c) \<longrightarrow>
             get_ready_nodes es \<noteq> [] \<and> length (allocate_nodes es 2) \<le> 2 \<and> allocate_nodes es 100 \<noteq> [])
        \<and> map_option cn_state (nodes (update_node_state (self_node_id c) (Executing gid) c) (self_node_id c))
             = Some (Executing gid)
        \<and> map_option cn_state (nodes (update_node_state (self_node_id c) Ready
             (update_node_state (self_node_id c) (Executing gid) c)) (self_node_id c)) = Some Ready)"

definition cluster_membership_tests :: "node_id \<Rightarrow> node_id \<Rightarrow> bool" where
  "cluster_membership_tests nid fresh \<longleftrightarrow>
     nodes (handle_rejoin fresh (cluster_new nid)) fresh \<noteq> None
     \<and> nodes (register_node \<lparr>cn_id = fresh, cn_state = Ready, cn_capacity = node_capacity_default,
          cn_current_load = flit 0\<rparr> (cluster_new nid)) fresh \<noteq> None
     \<and> (fresh \<noteq> nid \<longrightarrow> update_node_state fresh Ready (cluster_new nid) = cluster_new nid)"

section \<open>Control plane\<close>

definition test_request :: "string \<Rightarrow> client_credentials option \<Rightarrow> submission_request" where
  "test_request tenant credentials =
     \<lparr>sr_submission_id = ''sub-1'', sr_tenant_id = tenant, sr_config = submission_config_default,
      sr_idempotency_key = None, sr_credentials = credentials\<rparr>"

text \<open>The control plane of a new cluster; \<open>minutes\<close> is \<open>Duration::minutes\<close> in nanoseconds.\<close>

definition test_control :: "node_id \<Rightarrow> node_control" where
  "test_control nid = node_control_new (cluster_new nid)"

definition minutes :: "time \<Rightarrow> int \<Rightarrow> time" where
  "minutes t m = t + m * 60000000000"

definition submission_test :: "node_id \<Rightarrow> graph_id \<Rightarrow> time \<Rightarrow> node_order \<Rightarrow> bool" where
  "submission_test nid gid now es \<longleftrightarrow>
     \<not> isl (snd (control_submit minutes gid now es (test_request ''tenant-1'' None) (test_control nid)))"

definition request_tests :: "string option \<Rightarrow> bool" where
  "request_tests key \<longleftrightarrow>
     (let r = (test_request ''tenant-1'' None)\<lparr>sr_idempotency_key := key\<rparr> in
      sr_submission_id r = ''sub-1'' \<and> sr_tenant_id r = ''tenant-1'')"

definition config_test :: bool where
  "config_test \<longleftrightarrow>
     (let c = submission_config_default in
      sc_max_memory_mb c = Some 512 \<and> sc_max_fuel c = Some 1000000 \<and> sc_enable_simd c = Some True
      \<and> sc_output_path c = None \<and> sc_required_nodes c = Some 1)"

definition value_tests :: "graph_id \<Rightarrow> node_id \<Rightarrow> time \<Rightarrow> bool" where
  "value_tests gid nid now \<longleftrightarrow>
     (let c = \<lparr>cc_cert = Some ''cert-data'', cc_key = Some ''key-data'', cc_token = None\<rparr> in
        cc_cert c \<noteq> None \<and> cc_key c \<noteq> None)
     \<and> cc_token \<lparr>cc_cert = None, cc_key = None, cc_token = Some ''token-123''\<rparr> \<noteq> None
     \<and> length (ar_allocated_nodes \<lparr>ar_graph_id = gid, ar_allocated_nodes = [nid], ar_estimated_completion = now\<rparr>) = 1
     \<and> (let q = \<lparr>tq_tenant_id = ''tenant-1'', tq_max_concurrent_graphs = 10, tq_max_memory_mb = 4096,
            tq_max_fuel = 2000000, tq_active_graphs = 0\<rparr> in
        tq_tenant_id q = ''tenant-1'' \<and> tq_active_graphs q = 0)"

definition settings_tests :: "node_id \<Rightarrow> bool" where
  "settings_tests nid \<longleftrightarrow>
     (let s = test_control nid; on = set_auth_enabled True s in
      nc_graphs s = Map.empty \<and> nc_auth_enabled on \<and> \<not> nc_auth_enabled (set_auth_enabled False on)
      \<and> nc_tenant_quotas (register_tenant \<lparr>tq_tenant_id = ''tenant-1'', tq_max_concurrent_graphs = 5,
           tq_max_memory_mb = 1024, tq_max_fuel = 500000, tq_active_graphs = 0\<rparr> s) ''tenant-1'' \<noteq> None)"

definition submit_tests :: "node_id \<Rightarrow> graph_id \<Rightarrow> time \<Rightarrow> node_order \<Rightarrow> bool" where
  "submit_tests nid gid now es \<longleftrightarrow>
     (let s = test_control nid; on = set_auth_enabled True s;
          token = Some \<lparr>cc_cert = None, cc_key = None, cc_token = Some ''token-123''\<rparr>
      in \<not> isl (snd (control_submit minutes gid now es (test_request ''tenant-new'' None) s))
       \<and> isl (snd (control_submit minutes gid now es (test_request ''tenant-new'' None) on))
       \<and> \<not> isl (snd (control_submit minutes gid now es (test_request ''tenant-new'' token) on)))"

definition graph_calls_tests ::
  "(uuid \<Rightarrow> string) \<Rightarrow> node_id \<Rightarrow> node_id \<Rightarrow> graph_id \<Rightarrow> time \<Rightarrow> node_order \<Rightarrow> node_order \<Rightarrow> bool" where
  "graph_calls_tests show_uuid nid fresh gid now es es' \<longleftrightarrow>
     (let s = test_control nid; (s1, r) = control_submit minutes gid now es (test_request ''tenant-1'' None) s;
          g = ar_graph_id (projr r)
      in \<not> isl r \<and> \<not> isl (get_graph_status show_uuid g s1) \<and> isl (get_graph_status show_uuid gid s)
       \<and> isl (snd (control_cancel show_uuid g s1))
       \<and> nodes (nc_cluster (handle_node_rejoin fresh s)) fresh \<noteq> None
       \<and> \<not> isl (snd (handle_node_failure es' fresh g s1)))"

section \<open>Pipeline executor\<close>

definition pipeline_test :: "time \<Rightarrow> (nat \<Rightarrow> time) \<Rightarrow> (nat \<Rightarrow> u64) \<Rightarrow> u64 \<Rightarrow> node_id \<Rightarrow> graph_id \<Rightarrow> bool" where
  "pipeline_test now begun elapsed total_ms node gid \<longleftrightarrow>
     (let r = snd (pipeline_execute now begun elapsed total_ms node
            (create_distributed_graph gid (Some ''tenant-1'') graph_config_default) pipeline_new)
      in \<not> isl r \<and> er_status (projr r) = Completed)"

definition execution_state_tests ::
  "(uuid \<Rightarrow> string) \<Rightarrow> time \<Rightarrow> (nat \<Rightarrow> time) \<Rightarrow> (nat \<Rightarrow> u64) \<Rightarrow> u64 \<Rightarrow> node_id \<Rightarrow> graph_id \<Rightarrow> bool" where
  "execution_state_tests show_uuid now begun elapsed total_ms node gid \<longleftrightarrow>
     (let st = \<lparr>xs_graph_id = gid, xs_current_stage = 2, xs_started_at = now, xs_stage_start_times = Map.empty,
            xs_node_id = node\<rparr>;
          r0 = pipeline_new(gid \<mapsto> st);
          (r1, planned) = replan_on_failure node gid r0;
          (r2, cancelled) = pipeline_cancel show_uuid gid r1
      in map_option xs_current_stage (get_execution_state gid r0) = Some 2 \<and> \<not> isl planned \<and> \<not> isl cancelled
       \<and> get_execution_state gid r2 = None \<and> isl (snd (pipeline_cancel show_uuid gid r2)))
     \<and> (let g = (create_distributed_graph gid None graph_config_default)\<lparr>g_stages := []\<rparr>;
            (r, res) = pipeline_execute now begun elapsed total_ms node g pipeline_new
        in \<not> isl res \<and> er_graph_id (projr res) = gid \<and> get_execution_state gid r = None)"

section \<open>The tests pass\<close>

lemma capacity_tests_pass: "capacity_tests nid"
  by (simp add: capacity_tests_def node_capacity_default_def)

lemma manager_tests_pass: "manager_tests nid gid es"
proof -
  let ?c = "cluster_new nid"
  have "get_ready_nodes es \<noteq> [] \<and> length (allocate_nodes es 2) \<le> 2 \<and> allocate_nodes es 100 \<noteq> []"
    if it: "iterates es (nodes ?c)"
  proof -
    have "nid \<in> set (get_ready_nodes es)"
      using set_get_ready_nodes [OF it cluster_new_wf] by (simp add: cluster_new_def)
    then show ?thesis by (auto simp: allocate_nodes_def)
  qed
  then show ?thesis
    by (simp add: manager_tests_def update_node_state_def self_node_id_def cluster_new_def)
qed

lemma cluster_membership_tests_pass: "cluster_membership_tests nid fresh"
  by (simp add: cluster_membership_tests_def handle_rejoin_def register_node_def update_node_state_def cluster_new_def
      split: option.splits)

lemmas control_test_defs = test_control_def test_request_def node_control_new_def set_auth_enabled_def
  control_submit_def validate_defs register_tenant_def

lemma submission_test_pass: "submission_test nid gid now es"
  by (simp add: submission_test_def control_test_defs Let_def)

lemma request_tests_pass: "request_tests key"
  by (simp add: request_tests_def test_request_def)

lemma config_test_pass: config_test
  by (simp add: config_test_def submission_config_default_def)

lemma value_tests_pass: "value_tests gid nid now"
  by (simp add: value_tests_def)

lemma settings_tests_pass: "settings_tests nid"
  by (simp add: settings_tests_def control_test_defs)

lemma submit_tests_pass: "submit_tests nid gid now es"
  by (simp add: submit_tests_def control_test_defs Let_def)

lemma graph_calls_tests_pass: "graph_calls_tests show_uuid nid fresh gid now es es'"
  by (simp add: graph_calls_tests_def control_test_defs Let_def get_graph_status_def control_cancel_def
      mark_executing_def create_distributed_graph_def handle_node_rejoin_def handle_rejoin_def handle_node_failure_def
      cluster_new_def split: option.splits)

lemma pipeline_test_pass: "pipeline_test now begun elapsed total_ms node gid"
  by (simp add: pipeline_test_def pipeline_execute_def completed_result_def split: prod.splits)

lemma execution_state_tests_pass: "execution_state_tests show_uuid now begun elapsed total_ms node gid"
  by (simp add: execution_state_tests_def replan_on_failure_def pipeline_cancel_def get_execution_state_def
      pipeline_execute_def completed_result_def create_distributed_graph_def)

end
