(* ===== verification/Sdk.thy ===== *)
theory Sdk
  imports Prelude CoreTypes
begin

text \<open>
  The client library (\<open>kineplex-sdk/src\<close>) and its macros (\<open>kineplex-sdk-macros/src/lib.rs\<close>):
  request and response types, the HTTP calls of the client with their error mapping, and the
  code the macros expand to. The HTTP client is the parameter \<open>http\<close>: it sends a request and
  gives an error or a response, whose body can be read as text or decoded, either of which may
  fail. \<open>show_uuid\<close> and \<open>parse_uuid\<close> belong to the \<open>uuid\<close> crate. Proved: which responses become
  which results, which requests are sent, and that a submission panics on a successful response
  whose identifier is not a UUID.
\<close>

section \<open>Types\<close>

record graph_config_dto =
  cd_max_memory_mb :: "u64 option"
  cd_max_fuel :: "u64 option"
  cd_enable_simd :: "bool option"
  cd_output_path :: "string option"
  cd_required_nodes :: "u32 option"

definition graph_config_dto_default :: graph_config_dto where
  "graph_config_dto_default = \<lparr>cd_max_memory_mb = Some 512, cd_max_fuel = Some 1000000, cd_enable_simd = Some True,
     cd_output_path = None, cd_required_nodes = Some 1\<rparr>"

record graph_submit_request =
  gr_tenant_id :: string
  gr_config :: graph_config_dto
  gr_idempotency_key :: "string option"

record metrics_dto =
  md_total_time_ms :: u64
  md_rows_processed :: u64
  md_nodes_involved :: u32

record graph_status_response =
  gs_graph_id :: string
  gs_status :: string
  gs_stages_completed :: "string list"
  gs_metrics :: "metrics_dto option"

record allocation_result_dto =
  al_graph_id :: string
  al_allocated_nodes :: "string list"
  al_estimated_completion :: string

section \<open>Macros\<close>

definition expand_submit_graph :: "string \<Rightarrow> graph_submit_request" where
  "expand_submit_graph tenant_id =
     \<lparr>gr_tenant_id = tenant_id, gr_config = graph_config_dto_default, gr_idempotency_key = None\<rparr>"

text \<open>The methods the derive macro generates for \<open>GraphSubmitRequest\<close>.\<close>

definition submit_request_new :: "string \<Rightarrow> graph_submit_request" where
  "submit_request_new tenant_id =
     \<lparr>gr_tenant_id = tenant_id, gr_config = graph_config_dto_default, gr_idempotency_key = None\<rparr>"

definition with_config :: "graph_config_dto \<Rightarrow> graph_submit_request \<Rightarrow> graph_submit_request" where
  "with_config c r = r\<lparr>gr_config := c\<rparr>"

definition with_idempotency_key :: "string \<Rightarrow> graph_submit_request \<Rightarrow> graph_submit_request" where
  "with_idempotency_key k r = r\<lparr>gr_idempotency_key := Some k\<rparr>"

section \<open>The client\<close>

datatype client_error =
    RequestFailed string | ServerError string | ClientGraphNotFound string | ClientAuthenticationRequired

fun client_error_display :: "client_error \<Rightarrow> string" where
  "client_error_display (RequestFailed e) = ''Request failed: '' @ e"
| "client_error_display (ServerError s) = ''Server error: '' @ s"
| "client_error_display (ClientGraphNotFound s) = ''Graph not found: '' @ s"
| "client_error_display ClientAuthenticationRequired = ''Authentication required''"

type_synonym 'a client_result = "client_error + 'a"

datatype http_method = Get | Post

record http_request =
  hq_method :: http_method
  hq_url :: string
  hq_json :: "graph_submit_request option"
  hq_authorization :: "string option"

text \<open>\<open>hs_graph_id\<close> and \<open>hs_graph_status\<close> decode the body as the two response types.\<close>

record http_response =
  hs_status :: u16
  hs_text :: "string + string"
  hs_graph_id :: "string + string"
  hs_graph_status :: "string + graph_status_response"

record client =
  kc_base_url :: string
  kc_api_key :: "string option"

definition client_new :: "string \<Rightarrow> client" where
  "client_new base_url = \<lparr>kc_base_url = base_url, kc_api_key = None\<rparr>"

definition with_api_key :: "string \<Rightarrow> client \<Rightarrow> client" where
  "with_api_key k c = c\<lparr>kc_api_key := Some k\<rparr>"

definition make_request :: "http_method \<Rightarrow> string \<Rightarrow> graph_submit_request option \<Rightarrow> client \<Rightarrow> http_request" where
  "make_request m url body c =
     \<lparr>hq_method = m, hq_url = url, hq_json = body,
      hq_authorization = map_option (\<lambda>k. ''Bearer '' @ k) (kc_api_key c)\<rparr>"

definition is_success_status :: "http_response \<Rightarrow> bool" where
  "is_success_status r \<longleftrightarrow> 200 \<le> hs_status r \<and> hs_status r < 300"

text \<open>\<open>?\<close> on a result of the HTTP client, and the fall-through branch of every call.\<close>

definition or_failed :: "string + 'a \<Rightarrow> ('a \<Rightarrow> 'b client_result) \<Rightarrow> 'b client_result" where
  "or_failed r f = (case r of Inl e \<Rightarrow> Inl (RequestFailed e) | Inr x \<Rightarrow> f x)"

definition server_error :: "http_response \<Rightarrow> 'b client_result" where
  "server_error r = or_failed (hs_text r) (\<lambda>t. Inl (ServerError t))"

text \<open>\<open>None\<close> is the panic of \<open>unwrap\<close> on an identifier that is not a UUID.\<close>

definition submit_graph ::
  "(string \<Rightarrow> uuid option) \<Rightarrow> (http_request \<Rightarrow> string + http_response) \<Rightarrow> graph_submit_request \<Rightarrow> client \<Rightarrow>
   graph_id client_result option" where
  "submit_graph parse_uuid http req c =
     (case http (make_request Post (kc_base_url c @ ''/api/v1/graphs'') (Some req) c) of
        Inl e \<Rightarrow> Some (Inl (RequestFailed e))
      | Inr r \<Rightarrow>
          (if is_success_status r
           then (case hs_graph_id r of
               Inl e \<Rightarrow> Some (Inl (RequestFailed e))
             | Inr s \<Rightarrow> map_option (\<lambda>u. Inr (GraphId u)) (parse_uuid s))
           else if hs_status r = 401 then Some (Inl ClientAuthenticationRequired)
           else Some (server_error r)))"

definition get_status ::
  "(uuid \<Rightarrow> string) \<Rightarrow> (http_request \<Rightarrow> string + http_response) \<Rightarrow> graph_id \<Rightarrow> client \<Rightarrow> graph_status_response client_result" where
  "get_status show_uuid http gid c =
     or_failed (http (make_request Get (kc_base_url c @ ''/api/v1/graphs/'' @ show_uuid (graph_uuid gid)) None c)) (\<lambda>r.
       if is_success_status r then or_failed (hs_graph_status r) Inr
       else if hs_status r = 404 then Inl (ClientGraphNotFound (show_uuid (graph_uuid gid)))
       else server_error r)"

definition client_cancel ::
  "(uuid \<Rightarrow> string) \<Rightarrow> (http_request \<Rightarrow> string + http_response) \<Rightarrow> graph_id \<Rightarrow> client \<Rightarrow> unit client_result" where
  "client_cancel show_uuid http gid c =
     or_failed (http (make_request Post (kc_base_url c @ ''/api/v1/graphs/'' @ show_uuid (graph_uuid gid) @ ''/cancel'') None c)) (\<lambda>r.
       if is_success_status r then Inr ()
       else if hs_status r = 404 then Inl (ClientGraphNotFound (show_uuid (graph_uuid gid)))
       else server_error r)"

section \<open>Outcomes\<close>

lemma macro_matches_builder: "expand_submit_graph t = submit_request_new t"
  by (simp add: expand_submit_graph_def submit_request_new_def)

text \<open>
  A submission panics exactly when the server answers with success and a decodable body whose
  identifier is not a UUID. It returns an identifier exactly when that one parses to it, and
  \<open>AuthenticationRequired\<close> exactly on status 401, which the two other calls report as a server
  error.
\<close>

theorem submit_graph_outcomes:
  "(let sent = http (make_request Post (kc_base_url c @ ''/api/v1/graphs'') (Some req) c) in
    (submit_graph parse_uuid http req c = None \<longleftrightarrow>
       (\<exists>r s. sent = Inr r \<and> is_success_status r \<and> hs_graph_id r = Inr s \<and> parse_uuid s = None))
    \<and> (submit_graph parse_uuid http req c = Some (Inr (GraphId u)) \<longleftrightarrow>
       (\<exists>r s. sent = Inr r \<and> is_success_status r \<and> hs_graph_id r = Inr s \<and> parse_uuid s = Some u))
    \<and> (submit_graph parse_uuid http req c = Some (Inl ClientAuthenticationRequired) \<longleftrightarrow>
       (\<exists>r. sent = Inr r \<and> hs_status r = 401)))
   \<and> get_status show_uuid http gid c \<noteq> Inl ClientAuthenticationRequired
   \<and> client_cancel show_uuid http gid c \<noteq> Inl ClientAuthenticationRequired"
proof -
  have "\<not> is_success_status r" if "hs_status r = 401" for r using that by (simp add: is_success_status_def)
  then show ?thesis
    by (auto simp: submit_graph_def get_status_def client_cancel_def or_failed_def server_error_def Let_def
        split: sum.splits if_splits)
qed

text \<open>Whatever the server does, a key that is set is sent with every request.\<close>

lemma api_key_sent: "hq_authorization (make_request m url body (with_api_key k c)) = Some (''Bearer '' @ k)"
  by (simp add: make_request_def with_api_key_def)

end
