(* ===== verification/Cli.thy ===== *)
theory Cli
  imports Prelude CoreTypes Sdk
begin

text \<open>
  The command line (\<open>kineplex-cli/src/main.rs\<close>): the parsed arguments and the dispatch of a
  command to the client. Argument parsing belongs to the \<open>clap\<close> crate; a run returns the lines it
  prints or the message of its error, and \<open>None\<close> when the client panics. Shown: without
  \<open>--max-memory\<close> the submitted configuration has no memory limit at all.
\<close>

datatype command =
    Submit string "u64 option" "string option"
  | Status string
  | Cancel string
  | ListGraphs

record cli =
  cl_command :: command
  cl_server :: string
  cl_api_key :: "string option"

definition cli_client :: "cli \<Rightarrow> client" where
  "cli_client cli =
     (let c = client_new (cl_server cli) in case cl_api_key cli of None \<Rightarrow> c | Some k \<Rightarrow> with_api_key k c)"

definition cli_request :: "string \<Rightarrow> u64 option \<Rightarrow> string option \<Rightarrow> graph_submit_request" where
  "cli_request tenant_id max_memory key =
     \<lparr>gr_tenant_id = tenant_id, gr_config = graph_config_dto_default\<lparr>cd_max_memory_mb := max_memory\<rparr>,
      gr_idempotency_key = key\<rparr>"

text \<open>
  \<open>show_list\<close> is the \<open>Debug\<close> rendering of a list of strings and \<open>parse_error s\<close> the message with
  which \<open>Uuid::parse_str\<close> rejects \<open>s\<close>.
\<close>

definition cli_run ::
  "(uuid \<Rightarrow> string) \<Rightarrow> (string \<Rightarrow> uuid option) \<Rightarrow> (string \<Rightarrow> string) \<Rightarrow> (string list \<Rightarrow> string) \<Rightarrow>
   (http_request \<Rightarrow> string + http_response) \<Rightarrow> cli \<Rightarrow> (string + string list) option" where
  "cli_run show_uuid parse_uuid parse_error show_list http cli =
     (let c = cli_client cli in
      case cl_command cli of
        Submit tenant_id max_memory key \<Rightarrow>
          map_option (\<lambda>res. case res of
              Inl e \<Rightarrow> Inl (client_error_display e)
            | Inr gid \<Rightarrow> Inr [''Graph submitted: '' @ show_uuid (graph_uuid gid)])
            (submit_graph parse_uuid http (cli_request tenant_id max_memory key) c)
      | Status s \<Rightarrow> Some (case parse_uuid s of
            None \<Rightarrow> Inl (''Invalid graph ID: '' @ parse_error s)
          | Some u \<Rightarrow> (case get_status show_uuid http (GraphId u) c of
              Inl e \<Rightarrow> Inl (client_error_display e)
            | Inr st \<Rightarrow> Inr ([''Graph ID: '' @ gs_graph_id st, ''Status: '' @ gs_status st]
                @ (if gs_stages_completed st \<noteq> [] then [''Completed stages: '' @ show_list (gs_stages_completed st)] else []))))
      | Cancel s \<Rightarrow> Some (case parse_uuid s of
            None \<Rightarrow> Inl (''Invalid graph ID: '' @ parse_error s)
          | Some u \<Rightarrow> (case client_cancel show_uuid http (GraphId u) c of
              Inl e \<Rightarrow> Inl (client_error_display e)
            | Inr _ \<Rightarrow> Inr [''Graph cancelled: '' @ show_uuid u]))
      | ListGraphs \<Rightarrow> Some (Inr [''Listing graphs not yet implemented'']))"

text \<open>The struct update overrides the default of 512 MB also when the option is absent.\<close>

lemma cli_default_memory_dropped:
  "cd_max_memory_mb (gr_config (cli_request t None key)) = None"
  "cd_max_memory_mb (gr_config (expand_submit_graph t)) = Some 512"
  by (simp_all add: cli_request_def expand_submit_graph_def graph_config_dto_default_def)

text \<open>Only a submission can panic; an identifier that is not a UUID sends no request.\<close>

lemma cli_run_panics_only_on_submit:
  "cli_run show_uuid parse_uuid parse_error show_list http cli = None \<Longrightarrow>
   \<exists>t m k. cl_command cli = Submit t m k"
  by (cases "cl_command cli") (simp_all add: cli_run_def Let_def)

lemma cli_invalid_id:
  "parse_uuid s = None \<Longrightarrow> cl_command cli = Status s \<or> cl_command cli = Cancel s \<Longrightarrow>
   cli_run show_uuid parse_uuid parse_error show_list http cli = Some (Inl (''Invalid graph ID: '' @ parse_error s))"
  by (auto simp: cli_run_def Let_def)

end
