(* ===== verification/TestsClient.thy ===== *)
theory TestsClient
  imports Sdk Cli
begin

text \<open>
  The unit tests of the client (\<open>kineplex-sdk/src/client.rs\<close>), the command line
  (\<open>kineplex-cli/src/main.rs\<close>) and the macros (\<open>kineplex-sdk-macros/src/lib.rs\<close>) replayed on the
  model. A test server that answers one request is the function that gives its response. The
  \<open>uuid\<close> crate reads what it writes and rejects \<open>invalid\<close>: hypotheses of the lemmas.
\<close>

section \<open>Client\<close>

definition client_tests :: bool where
  "client_tests \<longleftrightarrow>
     kc_base_url (client_new ''http://localhost:8080'') = ''http://localhost:8080''
     \<and> kc_api_key (with_api_key ''test-key'' (client_new ''http://localhost:8080'')) \<noteq> None"

definition client_value_tests :: bool where
  "client_value_tests \<longleftrightarrow>
     client_error_display (ServerError ''Internal error'') = ''Server error: Internal error''
     \<and> client_error_display (ClientGraphNotFound ''graph-123'') = ''Graph not found: graph-123''
     \<and> client_error_display ClientAuthenticationRequired = ''Authentication required''
     \<and> kc_base_url (client_new ''localhost:8080'') = ''localhost:8080''
     \<and> kc_base_url (client_new ''https://api.example.com'') = ''https://api.example.com''
     \<and> kc_api_key (with_api_key ''my-secret-key'' (client_new ''http://localhost:8080'')) = Some ''my-secret-key''
     \<and> kc_api_key (with_api_key ''key2'' (with_api_key ''key1'' (client_new ''http://localhost:8080''))) = Some ''key2''"

text \<open>A server that answers with a status, a text, and what the text decodes to.\<close>

definition server ::
  "u16 \<Rightarrow> string \<Rightarrow> string + string \<Rightarrow> string + graph_status_response \<Rightarrow> http_request \<Rightarrow> string + http_response" where
  "server status body gid st req =
     Inr \<lparr>hs_status = status, hs_text = Inr body, hs_graph_id = gid, hs_graph_status = st\<rparr>"

definition plain_server :: "u16 \<Rightarrow> string \<Rightarrow> http_request \<Rightarrow> string + http_response" where
  "plain_server status body = server status body (Inl ''not json'') (Inl ''not json'')"

definition test_submission :: graph_submit_request where
  "test_submission = \<lparr>gr_tenant_id = ''tenant'', gr_config = graph_config_dto_default, gr_idempotency_key = Some ''key''\<rparr>"

definition running_status :: "string \<Rightarrow> string list \<Rightarrow> graph_status_response" where
  "running_status gid completed = \<lparr>gs_graph_id = gid, gs_status = ''running'', gs_stages_completed = completed, gs_metrics = None\<rparr>"

definition http_tests :: "(uuid \<Rightarrow> string) \<Rightarrow> (string \<Rightarrow> uuid option) \<Rightarrow> uuid \<Rightarrow> string \<Rightarrow> string \<Rightarrow> bool" where
  "http_tests show_uuid parse_uuid u url e \<longleftrightarrow>
     (let gid = GraphId u; c = client_new url;
          ok_id = server 200 [] (Inr (show_uuid u)) (Inl ''no status'');
          ok_status = server 200 [] (Inl ''no id'') (Inr (running_status (show_uuid u) []));
          unauthorized = plain_server 401 ''unauthorized''; failed = plain_server 500 ''failed'';
          missing = plain_server 404 ''missing''; empty = plain_server 204 []; down = (\<lambda>_. Inl e)
      in submit_graph parse_uuid ok_id test_submission (with_api_key ''secret'' c) = Some (Inr gid)
       \<and> submit_graph parse_uuid unauthorized test_submission c = Some (Inl ClientAuthenticationRequired)
       \<and> submit_graph parse_uuid failed test_submission c = Some (Inl (ServerError ''failed''))
       \<and> map_sum id gs_status (get_status show_uuid ok_status gid c) = Inr ''running''
       \<and> get_status show_uuid missing gid c = Inl (ClientGraphNotFound (show_uuid u))
       \<and> get_status show_uuid failed gid c = Inl (ServerError ''failed'')
       \<and> client_cancel show_uuid empty gid c = Inr ()
       \<and> client_cancel show_uuid missing gid c = Inl (ClientGraphNotFound (show_uuid u))
       \<and> client_cancel show_uuid failed gid c = Inl (ServerError ''failed'')
       \<and> client_cancel show_uuid down gid c = Inl (RequestFailed e))"

section \<open>Command line and macro\<close>

definition test_cli :: "command \<Rightarrow> string \<Rightarrow> cli" where
  "test_cli cmd url = \<lparr>cl_command = cmd, cl_server = url, cl_api_key = Some ''key''\<rparr>"

text \<open>A run succeeded, or ended in an error that is not a panic.\<close>

definition runs :: "(string + string list) option \<Rightarrow> bool" where
  "runs r \<longleftrightarrow> (case r of Some (Inr _) \<Rightarrow> True | _ \<Rightarrow> False)"

definition fails :: "(string + string list) option \<Rightarrow> bool" where
  "fails r \<longleftrightarrow> (case r of Some (Inl _) \<Rightarrow> True | _ \<Rightarrow> False)"

definition cli_tests ::
  "(uuid \<Rightarrow> string) \<Rightarrow> (string \<Rightarrow> uuid option) \<Rightarrow> (string \<Rightarrow> string) \<Rightarrow> (string list \<Rightarrow> string) \<Rightarrow> uuid \<Rightarrow> string \<Rightarrow> string \<Rightarrow> bool" where
  "cli_tests show_uuid parse_uuid parse_error show_list u url e \<longleftrightarrow>
     (let run = cli_run show_uuid parse_uuid parse_error show_list; down = (\<lambda>_. Inl e);
          ok_id = server 200 [] (Inr (show_uuid u)) (Inl ''no status'');
          ok_status = server 200 [] (Inl ''no id'') (Inr (running_status (show_uuid u) [''receptor'']))
      in runs (run down (test_cli ListGraphs ''http://127.0.0.1:1''))
       \<and> runs (run ok_id (test_cli (Submit ''tenant'' (Some 1024) (Some ''key'')) url))
       \<and> runs (run ok_status (test_cli (Status (show_uuid u)) url))
       \<and> fails (run down (test_cli (Status ''invalid'') ''http://127.0.0.1:1''))
       \<and> runs (run (plain_server 204 []) (test_cli (Cancel (show_uuid u)) url))
       \<and> fails (run down (test_cli (Cancel ''invalid'') ''http://127.0.0.1:1'')))"

section \<open>The tests pass\<close>

lemma client_tests_pass: client_tests
  by (simp add: client_tests_def client_new_def with_api_key_def)

lemma client_value_tests_pass: client_value_tests
  by (simp add: client_value_tests_def client_new_def with_api_key_def)

lemmas server_defs = server_def plain_server_def running_status_def is_success_status_def server_error_def or_failed_def

lemma http_tests_pass:
  assumes "parse_uuid (show_uuid u) = Some u"
  shows "http_tests show_uuid parse_uuid u url e"
  using assms by (simp add: http_tests_def submit_graph_def get_status_def client_cancel_def server_defs Let_def word_le_nat_alt word_less_nat_alt)

lemma cli_tests_pass:
  assumes "parse_uuid (show_uuid u) = Some u" and "parse_uuid ''invalid'' = None"
  shows "cli_tests show_uuid parse_uuid parse_error show_list u url e"
  using assms by (simp add: cli_tests_def cli_run_def test_cli_def runs_def fails_def submit_graph_def get_status_def
      client_cancel_def server_defs Let_def word_le_nat_alt word_less_nat_alt)

end
