(* ===== verification/StepControl.thy ===== *)
theory StepControl
  imports Prelude F64
begin

text \<open>
  The adaptive step of the Ricci flow (\<open>kineplex-core/src/geometry.rs\<close>, FT-089): the PID
  controller \<open>AdaptiveStepController\<close> over IEEE doubles and the sliding window
  \<open>EpsilonHistory\<close> with its variance and oscillation test. Proved: the step size stays within
  its limits and reacts monotonically to the curvature change, one NaN input disables the
  controller for good, the window holds the most recent samples, and the 30 percent threshold
  of the oscillation test is exact.
\<close>

section \<open>The PID controller\<close>

record step_controller =
  kp :: f64
  ki :: f64
  kd :: f64
  prev_error :: f64
  sc_integral :: f64
  epsilon :: f64
  epsilon_min :: f64
  epsilon_max :: f64

definition step_controller_new :: "f64 \<Rightarrow> step_controller" where
  "step_controller_new initial_epsilon =
     \<lparr>kp = flit 0.5, ki = flit 0.1, kd = flit 0.3, prev_error = flit 0, sc_integral = flit 0,
      epsilon = initial_epsilon, epsilon_min = flit 0.001, epsilon_max = flit 1\<rparr>"

definition with_limits :: "f64 \<Rightarrow> f64 \<Rightarrow> step_controller \<Rightarrow> step_controller" where
  "with_limits lo hi c = c\<lparr>epsilon_min := lo, epsilon_max := hi\<rparr>"

definition with_pid_gains :: "f64 \<Rightarrow> f64 \<Rightarrow> f64 \<Rightarrow> step_controller \<Rightarrow> step_controller" where
  "with_pid_gains p i d c = c\<lparr>kp := p, ki := i, kd := d\<rparr>"

text \<open>\<open>None\<close> is the panic of \<open>f64::clamp\<close> when the limits are not ordered.\<close>

definition compute :: "f64 \<Rightarrow> step_controller \<Rightarrow> (step_controller \<times> f64) option" where
  "compute curvature_change c = do {
     let error = f_sub (flit 0) curvature_change;
     let p_term = f_mul (kp c) error;
     let integral1 = f_add (sc_integral c) error;
     integral2 \<leftarrow> f_clamp integral1 (flit (- 100)) (flit 100);
     let i_term = f_mul (ki c) integral2;
     let d_term = f_mul (kd c) (f_sub error (prev_error c));
     let new_epsilon = f_add (f_add (f_add (epsilon c) p_term) i_term) d_term;
     e \<leftarrow> f_clamp new_epsilon (epsilon_min c) (epsilon_max c);
     Some (c\<lparr>prev_error := error, sc_integral := integral2, epsilon := e\<rparr>, e)
   }"

definition is_stable :: "step_controller \<Rightarrow> bool" where
  "is_stable c \<longleftrightarrow> f_lt (f_abs (sc_integral c)) (flit 0.01) \<and> f_lt (f_abs (prev_error c)) (flit 0.001)"

definition step_reset :: "step_controller \<Rightarrow> step_controller" where
  "step_reset c = c\<lparr>prev_error := flit 0, sc_integral := flit 0\<rparr>"

text \<open>A run of the controller: the successive step sizes it returns.\<close>

fun compute_run :: "f64 list \<Rightarrow> step_controller \<Rightarrow> (step_controller \<times> f64 list) option" where
  "compute_run [] c = Some (c, [])"
| "compute_run (x # xs) c = do {
     (c1, e) \<leftarrow> compute x c;
     (c2, es) \<leftarrow> compute_run xs c1;
     Some (c2, e # es)
   }"

section \<open>The controller's invariant\<close>

text \<open>
  The controller has positive gains of at most 1 (the default ones are 0.5, 0.1 and 0.3),
  ordered limits, and step size, error and integral of moderate size: up to \<open>2 powi 1000\<close>, about
  \<open>10 ^ 301\<close>; the integral is within its windup bounds.
\<close>

definition gain_ok :: "f64 \<Rightarrow> bool" where
  "gain_ok g \<longleftrightarrow> mag_le 0 g \<and> 0 < fval g"

definition gains_ok :: "step_controller \<Rightarrow> bool" where
  "gains_ok c \<longleftrightarrow> gain_ok (kp c) \<and> gain_ok (ki c) \<and> gain_ok (kd c)"

abbreviation moderate :: "f64 \<Rightarrow> bool" where
  "moderate \<equiv> mag_le 1000"

definition controller_ok :: "step_controller \<Rightarrow> bool" where
  "controller_ok c \<longleftrightarrow> gains_ok c
     \<and> moderate (epsilon_min c) \<and> moderate (epsilon_max c) \<and> f_le (epsilon_min c) (epsilon_max c)
     \<and> moderate (epsilon c) \<and> moderate (prev_error c)
     \<and> moderate (sc_integral c) \<and> f_le (flit (- 100)) (sc_integral c) \<and> f_le (sc_integral c) (flit 100)"

lemma mag_small: "\<bar>q\<bar> \<le> 128 \<Longrightarrow> mag_le 7 (Fin q)"
  by (simp add: mag_le_def)

lemma gains_mag:
  "gains_ok c \<Longrightarrow> mag_le 0 (kp c)" "gains_ok c \<Longrightarrow> mag_le 0 (ki c)" "gains_ok c \<Longrightarrow> mag_le 0 (kd c)"
  by (simp_all add: gains_ok_def gain_ok_def)

lemma gains_pos:
  assumes "gains_ok c"
  shows "finite_f64 (kp c)" "0 < fval (kp c)" "finite_f64 (ki c)" "0 < fval (ki c)"
    "finite_f64 (kd c)" "0 < fval (kd c)"
  using assms by (auto simp: gains_ok_def gain_ok_def mag_le_def)

lemma small_moderate: "\<bar>q\<bar> \<le> 128 \<Longrightarrow> moderate (Fin q)"
  using mag_small by (rule mag_mono) simp_all

lemma controller_new_ok:
  assumes "moderate e"
  shows "controller_ok (step_controller_new e)"
  using assms
  by (simp add: controller_ok_def gains_ok_def gain_ok_def step_controller_new_def flits small_moderate)
    (simp add: mag_le_def)

lemma with_limits_ok:
  "controller_ok c \<Longrightarrow> moderate lo \<Longrightarrow> moderate hi \<Longrightarrow> f_le lo hi \<Longrightarrow> controller_ok (with_limits lo hi c)"
  by (simp add: controller_ok_def gains_ok_def with_limits_def)

lemma with_pid_gains_ok:
  "controller_ok c \<Longrightarrow> gain_ok p \<Longrightarrow> gain_ok i \<Longrightarrow> gain_ok d \<Longrightarrow> controller_ok (with_pid_gains p i d c)"
  by (simp add: controller_ok_def gains_ok_def with_pid_gains_def)

lemma reset_ok: "controller_ok c \<Longrightarrow> controller_ok (step_reset c)"
  by (simp add: controller_ok_def gains_ok_def step_reset_def flits small_moderate)

lemma f_clamp_ordered: "f_le lo hi \<Longrightarrow> \<exists>y. f_clamp x lo hi = Some y"
  by (simp add: f_clamp_def)

lemma windup_limits: "f_le (flit (- 100)) (flit 100)"
  by (simp add: flits)

text \<open>The terms of the control law, before the clamps.\<close>

definition control_error :: "f64 \<Rightarrow> f64" where
  "control_error x = f_sub (flit 0) x"

definition raw_step :: "f64 \<Rightarrow> f64 \<Rightarrow> step_controller \<Rightarrow> f64" where
  "raw_step i x c = f_add (f_add (f_add (epsilon c) (f_mul (kp c) (control_error x))) (f_mul (ki c) i))
     (f_mul (kd c) (f_sub (control_error x) (prev_error c)))"

lemma compute_Some_iff:
  "compute x c = Some (c', e) \<longleftrightarrow>
     (\<exists>i. f_clamp (f_add (sc_integral c) (control_error x)) (flit (- 100)) (flit 100) = Some i
        \<and> f_clamp (raw_step i x c) (epsilon_min c) (epsilon_max c) = Some e
        \<and> c' = c\<lparr>prev_error := control_error x, sc_integral := i, epsilon := e\<rparr>)"
  by (auto simp: compute_def control_error_def raw_step_def Let_def Option.bind_eq_Some_conv)

lemma compute_total:
  assumes "f_le (epsilon_min c) (epsilon_max c)"
  shows "\<exists>c' e. compute x c = Some (c', e)"
  unfolding compute_Some_iff using f_clamp_ordered [OF windup_limits] f_clamp_ordered [OF assms] by blast

lemma compute_panics_iff: "compute x c = None \<longleftrightarrow> \<not> f_le (epsilon_min c) (epsilon_max c)"
proof (cases "f_le (epsilon_min c) (epsilon_max c)")
  case True
  then show ?thesis using compute_total [of c x] by auto
next
  case False
  then show ?thesis using compute_Some_iff [of x c] f_clamp_def by (cases "compute x c") auto
qed

lemma control_error_mag:
  assumes "mag_le 999 x"
  shows "moderate (control_error x)"
  unfolding control_error_def flits
  using mag_sub [of 999 "Fin 0" x] mag_small [of 0] mag_mono [of 7 "Fin 0" 999] assms by simp

lemma windup_moderate: "f_le (flit (- 100)) i \<Longrightarrow> f_le i (flit 100) \<Longrightarrow> mag_le 7 i"
  by (rule mag_between [of 7 "flit (- 100)" "flit 100"]) (simp_all add: flits mag_small)

lemma raw_step_mag:
  assumes "controller_ok c" "mag_le 999 x" "mag_le 7 i"
  shows "mag_le 1004 (raw_step i x c)"
proof -
  note ok = assms(1) [unfolded controller_ok_def] and err = control_error_mag [OF assms(2)]
  note g = gains_mag [OF conjunct1 [OF ok]]
  have "moderate (f_mul (kp c) (control_error x))" using mag_mul [OF g(1) err] by simp
  then have 1: "mag_le 1001 (f_add (epsilon c) (f_mul (kp c) (control_error x)))"
    using mag_add [of 1000 "epsilon c"] ok by simp
  have "mag_le 7 (f_mul (ki c) i)" using mag_mul [OF g(2) assms(3)] by simp
  then have 2: "mag_le 1002 (f_add (f_add (epsilon c) (f_mul (kp c) (control_error x))) (f_mul (ki c) i))"
    using mag_add [OF 1 mag_mono, of 7] by simp
  have "mag_le 1001 (f_sub (control_error x) (prev_error c))" using mag_sub [OF err] ok by simp
  then have "mag_le 1001 (f_mul (kd c) (f_sub (control_error x) (prev_error c)))" using mag_mul [OF g(3)] by simp
  then have "mag_le 1003 (raw_step i x c)"
    unfolding raw_step_def using mag_add [OF 2 mag_mono, of 1001] by simp
  then show ?thesis by (rule mag_mono) simp
qed

lemma compute_ok:
  assumes "controller_ok c" "mag_le 999 x" "compute x c = Some (c', e)"
  shows "controller_ok c' \<and> epsilon c' = e \<and> epsilon_min c' = epsilon_min c \<and> epsilon_max c' = epsilon_max c
    \<and> f_le (epsilon_min c) e \<and> f_le e (epsilon_max c)"
proof -
  note ok = assms(1) [unfolded controller_ok_def] and err = control_error_mag [OF assms(2)]
  obtain i where i: "f_clamp (f_add (sc_integral c) (control_error x)) (flit (- 100)) (flit 100) = Some i"
    and e: "f_clamp (raw_step i x c) (epsilon_min c) (epsilon_max c) = Some e"
    and c': "c' = c\<lparr>prev_error := control_error x, sc_integral := i, epsilon := e\<rparr>"
    using assms(3) unfolding compute_Some_iff by blast
  have "mag_le 1001 (f_add (sc_integral c) (control_error x))" using mag_add [OF _ err] ok by simp
  then have i': "f_le (flit (- 100)) i" "f_le i (flit 100)"
    using f_clamp_range(1) [OF i] mag_not_NaN by blast+
  note i7 = windup_moderate [OF i']
  have "raw_step i x c \<noteq> NaN" using raw_step_mag [OF assms(1,2) i7] by (rule mag_not_NaN)
  then have e': "f_le (epsilon_min c) e" "f_le e (epsilon_max c)" using f_clamp_range(1) [OF e] by blast+
  moreover have "moderate e" using mag_between [OF _ _ e'] ok by blast
  moreover have "moderate i" using i7 by (rule mag_mono) simp
  ultimately show ?thesis
    using ok i' err unfolding c' controller_ok_def gains_ok_def by simp
qed

section \<open>The step size over a run\<close>

text \<open>
  C15: With positive gains of at most 1 (the default ones, and those \<open>with_pid_gains\<close> sets in that
  range), ordered limits, and a state and limits of magnitude at most \<open>2 powi 1000\<close> with the integral
  within its windup bounds, the controller never panics on a sequence of curvature changes of
  magnitude at most \<open>2 powi 999\<close>, and every step size it returns lies within its limits.
\<close>

theorem compute_run_within_limits:
  assumes "controller_ok c" and "\<forall>x \<in> set xs. mag_le 999 x"
  shows "\<exists>c' es. compute_run xs c = Some (c', es) \<and> controller_ok c' \<and> length es = length xs
    \<and> (\<forall>e \<in> set es. f_le (epsilon_min c) e \<and> f_le e (epsilon_max c))"
  using assms
proof (induction xs arbitrary: c)
  case (Cons x xs)
  obtain c1 e where c1: "compute x c = Some (c1, e)"
    using compute_total Cons.prems(1) unfolding controller_ok_def by blast
  have ok: "controller_ok c1" "epsilon_min c1 = epsilon_min c" "epsilon_max c1 = epsilon_max c"
    "f_le (epsilon_min c) e" "f_le e (epsilon_max c)"
    using compute_ok [OF Cons.prems(1) _ c1] Cons.prems(2) by simp_all
  then show ?case using Cons.IH [OF ok(1)] Cons.prems(2) c1 by auto
qed simp

theorem compute_run_within_limits_witness:
  "let xs = map Fin [1, - 3, 1 / 2] in
   \<exists>c' es. compute_run xs (step_controller_new (flit 0.1)) = Some (c', es) \<and> length es = 3
    \<and> (\<forall>e \<in> set es. f_le (flit 0.001) e \<and> f_le e (flit 1))"
proof -
  let ?xs = "map Fin [1, - 3, 1 / 2]" and ?c = "step_controller_new (flit 0.1)"
  have small: "\<bar>q\<bar> \<le> 128 \<Longrightarrow> mag_le 999 (Fin q)" for q using mag_small by (rule mag_mono) simp_all
  have "controller_ok ?c" by (rule controller_new_ok) (simp add: flits small_moderate)
  moreover have "\<forall>x \<in> set ?xs. mag_le 999 x" by (simp add: small)
  ultimately show ?thesis
    using compute_run_within_limits [of ?c ?xs] by (fastforce simp: step_controller_new_def)
qed

lemma control_error_antimono:
  assumes "mag_le 999 x" "mag_le 999 y" "f_le x y"
  shows "f_le (control_error y) (control_error x)"
  unfolding control_error_def flits f_sub_def
  using f_add_mono [OF f_le_refl f_neg_mono [OF assms(3)], of "Fin 0"] assms(1,2) finite_ops_not_NaN(1)
  by (simp add: magD)

lemma raw_step_mono:
  assumes c: "controller_ok c" and xy: "mag_le 999 x" "mag_le 999 y" "f_le x y"
    and i: "mag_le 7 ix" "mag_le 7 iy" "f_le iy ix"
  shows "f_le (raw_step iy y c) (raw_step ix x c)"
proof -
  note ok = c [unfolded controller_ok_def] and le = control_error_antimono [OF xy]
  have fin: "finite_f64 (prev_error c)" "finite_f64 (epsilon c)"
    using ok by (auto dest: magD)
  have raw: "raw_step ix x c \<noteq> NaN" "raw_step iy y c \<noteq> NaN"
    using raw_step_mag [OF c xy(1) i(1)] raw_step_mag [OF c xy(2) i(2)] by (simp_all only: mag_not_NaN not_False_eq_True)
  then have nn: "f_add (f_add (epsilon c) (f_mul (kp c) (control_error z))) (f_mul (ki c) j) \<noteq> NaN
      \<and> f_add (epsilon c) (f_mul (kp c) (control_error z)) \<noteq> NaN \<and> f_sub (control_error z) (prev_error c) \<noteq> NaN"
    if "(z, j) \<in> {(x, ix), (y, iy)}" for z j
    using that unfolding raw_step_def by (auto simp: NaN_absorbs)
  note g = gains_pos [OF conjunct1 [OF ok]]
  have "f_le (f_sub (control_error y) (prev_error c)) (f_sub (control_error x) (prev_error c))"
    using nn le fin unfolding f_sub_def by (intro f_add_mono f_le_refl) (auto simp: finite_not_NaN)
  then have d: "f_le (f_mul (kd c) (f_sub (control_error y) (prev_error c))) (f_mul (kd c) (f_sub (control_error x) (prev_error c)))"
    by (rule f_mul_mono [OF g(5,6)])
  have "f_le (f_add (epsilon c) (f_mul (kp c) (control_error y))) (f_add (epsilon c) (f_mul (kp c) (control_error x)))"
    using nn by (intro f_add_mono f_le_refl f_mul_mono [OF g(1,2)] le) (auto simp: finite_not_NaN fin)
  then have "f_le (f_add (f_add (epsilon c) (f_mul (kp c) (control_error y))) (f_mul (ki c) iy))
      (f_add (f_add (epsilon c) (f_mul (kp c) (control_error x))) (f_mul (ki c) ix))"
    using nn by (intro f_add_mono [OF _ f_mul_mono [OF g(3,4) i(3)]]) auto
  then show ?thesis
    unfolding raw_step_def by (rule f_add_mono [OF _ d raw(2,1) [unfolded raw_step_def]])
qed

text \<open>
  C16: Under the conditions of C15 (positive gains of at most 1, ordered limits, state and limits
  of magnitude at most \<open>2 powi 1000\<close> with the integral within its windup bounds, inputs of magnitude at
  most \<open>2 powi 999\<close>) the controller is a negative feedback: from the same state, a larger curvature
  change never gives a larger step size, nor a larger integral, and neither call panics. A negative
  gain, which \<open>with_pid_gains\<close> accepts, is outside the claim, and limits that are not ordered, which
  \<open>with_limits\<close> accepts, are exactly what makes a call panic (\<open>compute_panics_iff\<close>).
\<close>

theorem compute_antimonotone:
  assumes "controller_ok c" and "mag_le 999 x" and "mag_le 999 y" and "f_le x y"
  shows "\<exists>cx ex cy ey. compute x c = Some (cx, ex) \<and> compute y c = Some (cy, ey)
    \<and> f_le ey ex \<and> f_le (sc_integral cy) (sc_integral cx)"
proof -
  note ok = assms(1) [unfolded controller_ok_def]
  obtain cx ex cy ey where s: "compute x c = Some (cx, ex)" "compute y c = Some (cy, ey)"
    using compute_total ok by blast
  obtain ix iy where i: "f_clamp (f_add (sc_integral c) (control_error x)) (flit (- 100)) (flit 100) = Some ix"
      "f_clamp (f_add (sc_integral c) (control_error y)) (flit (- 100)) (flit 100) = Some iy"
    and e: "f_clamp (raw_step ix x c) (epsilon_min c) (epsilon_max c) = Some ex"
      "f_clamp (raw_step iy y c) (epsilon_min c) (epsilon_max c) = Some ey"
    and c': "sc_integral cx = ix" "sc_integral cy = iy"
    using s unfolding compute_Some_iff by auto
  have m: "mag_le 1001 (f_add (sc_integral c) (control_error x))" "mag_le 1001 (f_add (sc_integral c) (control_error y))"
    using mag_add [OF _ control_error_mag] assms(2,3) ok by simp_all
  have "f_le (f_add (sc_integral c) (control_error y)) (f_add (sc_integral c) (control_error x))"
    using ok mag_not_NaN m by (intro f_add_mono f_le_refl control_error_antimono assms(2-4)) blast+
  then have ile: "f_le iy ix" using f_clamp_mono i by blast
  have "mag_le 7 ix" "mag_le 7 iy"
    using f_clamp_range(1) [OF i(1)] f_clamp_range(1) [OF i(2)] m windup_moderate mag_not_NaN by blast+
  then have "f_le ey ex" using raw_step_mono [OF assms _ _ ile] f_clamp_mono e by blast
  with s ile c' show ?thesis by blast
qed

theorem compute_antimonotone_witness:
  "let c = step_controller_new (flit 0.1) in
   \<exists>cx ex cy ey. compute (Fin (- 1)) c = Some (cx, ex) \<and> compute (Fin 2) c = Some (cy, ey) \<and> f_le ey ex"
proof -
  have "controller_ok (step_controller_new (flit 0.1))" by (rule controller_new_ok) (simp add: flits small_moderate)
  moreover have "\<bar>q\<bar> \<le> 128 \<Longrightarrow> mag_le 999 (Fin q)" for q using mag_small by (rule mag_mono) simp_all
  ultimately show ?thesis
    using compute_antimonotone [of "step_controller_new (flit 0.1)" "Fin (- 1)" "Fin 2"] unfolding Let_def by fastforce
qed

text \<open>
  A NaN curvature change is not an error: it makes the step size NaN, and from then on
  every step size is NaN, whatever finite changes follow and however often the controller is reset.
\<close>

fun control_ops :: "f64 option list \<Rightarrow> step_controller \<Rightarrow> step_controller option" where
  "control_ops [] c = Some c"
| "control_ops (None # ops) c = control_ops ops (step_reset c)"
| "control_ops (Some x # ops) c = compute x c \<bind> (\<lambda>(c', e). control_ops ops c')"

lemma compute_from_NaN:
  "epsilon c = NaN \<Longrightarrow> f_le (epsilon_min c) (epsilon_max c) \<Longrightarrow>
   \<exists>c'. compute x c = Some (c', NaN) \<and> epsilon c' = NaN \<and> epsilon_min c' = epsilon_min c \<and> epsilon_max c' = epsilon_max c"
  using compute_total [of c x] by (auto simp: compute_Some_iff raw_step_def f_clamp_def split: if_splits)

lemma control_ops_from_NaN:
  "epsilon c = NaN \<Longrightarrow> f_le (epsilon_min c) (epsilon_max c) \<Longrightarrow>
   \<exists>c'. control_ops ops c = Some c' \<and> epsilon c' = NaN"
proof (induction ops arbitrary: c)
  case (Cons op ops)
  show ?case
  proof (cases op)
    case None
    then show ?thesis using Cons by (simp add: step_reset_def)
  next
    case (Some x)
    then show ?thesis using compute_from_NaN [OF Cons.prems, of x] Cons.IH Cons.prems(2) by fastforce
  qed
qed simp

theorem NaN_input_is_permanent:
  assumes "f_le (epsilon_min c) (epsilon_max c)"
  shows "\<exists>c'. control_ops (Some NaN # ops) c = Some c' \<and> epsilon c' = NaN"
proof -
  obtain c1 e where c1: "compute NaN c = Some (c1, e)" using compute_total [OF assms] by blast
  then have "epsilon c1 = NaN" "epsilon_min c1 = epsilon_min c" "epsilon_max c1 = epsilon_max c"
    by (auto simp: compute_Some_iff raw_step_def control_error_def f_clamp_def split: if_splits)
  with c1 assms control_ops_from_NaN [of c1] show ?thesis by simp
qed

theorem NaN_input_is_permanent_witness:
  "\<exists>c'. control_ops (Some NaN # [None, Some (Fin 0), Some (Fin 1)]) (step_controller_new (flit 0.1)) = Some c'
    \<and> epsilon c' = NaN"
  by (rule NaN_input_is_permanent) (simp add: step_controller_new_def flits)

section \<open>The epsilon history\<close>

record epsilon_history =
  eh_samples :: "f64 list"
  eh_max_samples :: nat

definition epsilon_history_new :: "nat \<Rightarrow> epsilon_history" where
  "epsilon_history_new max_samples = \<lparr>eh_samples = [], eh_max_samples = max_samples\<rparr>"

text \<open>\<open>None\<close> is the panic of \<open>Vec::remove(0)\<close> on an empty vector.\<close>

definition history_push :: "f64 \<Rightarrow> epsilon_history \<Rightarrow> epsilon_history option" where
  "history_push e h =
     (if eh_max_samples h \<le> length (eh_samples h)
      then (case eh_samples h of [] \<Rightarrow> None | _ # rest \<Rightarrow> Some (h\<lparr>eh_samples := rest @ [e]\<rparr>))
      else Some (h\<lparr>eh_samples := eh_samples h @ [e]\<rparr>))"

definition variance :: "epsilon_history \<Rightarrow> f64" where
  "variance h =
     (if length (eh_samples h) < 2 then flit 0
      else let n = f_of_nat (length (eh_samples h)); mean = f_div (f_sum (eh_samples h)) n
           in f_div (f_sum (map (\<lambda>x. f_sq (f_sub x mean)) (eh_samples h))) n)"

text \<open>The loop counter is an \<open>i32\<close>; it stays below the number of samples.\<close>

definition turns :: "f64 list \<Rightarrow> nat" where
  "turns xs = length (filter (\<lambda>i. let prev = xs ! (i - 1); curr = xs ! i; prev_prev = xs ! (i - 2)
     in (f_lt prev curr \<and> f_lt prev prev_prev) \<or> (f_lt curr prev \<and> f_lt prev_prev prev))
     [2..<length xs])"

definition has_oscillation :: "epsilon_history \<Rightarrow> bool" where
  "has_oscillation h \<longleftrightarrow> 4 \<le> length (eh_samples h) \<and>
     f_lt (flit 0.3) (f_div (f_of_nat (turns (eh_samples h))) (f_of_nat (length (eh_samples h) - 2)))"

definition history_ok :: "epsilon_history \<Rightarrow> bool" where
  "history_ok h \<longleftrightarrow> 0 < eh_max_samples h \<and> length (eh_samples h) \<le> eh_max_samples h"

lemma history_push_defined: "history_ok h \<Longrightarrow> \<exists>h'. history_push e h = Some h'"
  by (auto simp: history_ok_def history_push_def split: list.splits)

lemma last_n_full: "length xs = n \<Longrightarrow> 0 < n \<Longrightarrow> last_n n (xs @ [x]) = tl xs @ [x]"
  by (cases xs) (auto simp: last_n_def)

interpretation eh: bounded_window "\<lambda>e h. the (history_push e h)" eh_samples eh_max_samples history_ok
proof unfold_locales
  fix h e assume ok: "history_ok h"
  show "eh_samples (the (history_push e h)) = last_n (eh_max_samples h) (eh_samples h @ [e])"
    using ok last_n_full [of "eh_samples h" "eh_max_samples h" e]
    by (auto simp: history_ok_def history_push_def last_n_all split: list.splits)
  show "eh_max_samples (the (history_push e h)) = eh_max_samples h"
    using ok by (auto simp: history_ok_def history_push_def split: list.splits)
  show "history_ok (the (history_push e h))"
    using ok by (auto simp: history_ok_def history_push_def split: list.splits)
qed

fun history_pushes :: "f64 list \<Rightarrow> epsilon_history \<Rightarrow> epsilon_history option" where
  "history_pushes [] h = Some h"
| "history_pushes (e # es) h = history_push e h \<bind> history_pushes es"

lemma history_pushes_fold:
  "history_ok h \<Longrightarrow> history_pushes es h = Some (fold (\<lambda>e h. the (history_push e h)) es h)"
proof (induction es arbitrary: h)
  case (Cons e es)
  then show ?case using history_push_defined [of h e] eh.ok_push [of h e] by auto
qed simp

text \<open>
  A history of positive capacity holds exactly the most recent samples, in order, and never
  panics; the first sample pushed to a history of capacity zero panics.
\<close>

theorem history_keeps_latest:
  "(case history_pushes es (epsilon_history_new n) of
      Some h \<Rightarrow> eh_samples h = last_n n es \<and> (es = [] \<or> 0 < n)
    | None \<Rightarrow> n = 0 \<and> es \<noteq> [])"
proof (cases "n = 0")
  case True
  then show ?thesis by (cases es) (simp_all add: epsilon_history_new_def history_push_def)
next
  case False
  let ?h = "epsilon_history_new n"
  have ok: "history_ok ?h" and c: "eh_samples ?h = last_n (eh_max_samples ?h) []" and m: "eh_max_samples ?h = n"
    using False by (simp_all add: epsilon_history_new_def history_ok_def)
  show ?thesis using eh.contents_pushes [OF ok c] False by (simp add: history_pushes_fold [OF ok] m)
qed

text \<open>
  The variance of a window of finite samples is never NaN and never negative, whatever
  overflows on the way.
\<close>

theorem variance_nonnegative:
  assumes "\<forall>x \<in> set (eh_samples h). finite_f64 x" and "length (eh_samples h) < 2 ^ 53"
  shows "f_le (Fin 0) (variance h)"
proof (cases "length (eh_samples h) < 2")
  case False
  let ?xs = "eh_samples h" and ?n = "Fin (of_nat (length (eh_samples h)))"
  let ?mean = "f_div (f_sum ?xs) ?n"
  have n: "f_of_nat (length ?xs) = ?n" "0 < fval ?n" "finite_f64 ?n"
    using assms(2) False by (auto simp: f_of_nat_exact)
  have "f_sum ?xs \<noteq> NaN" unfolding f_sum_def using assms(1) by (intro foldl_f_add_finite_not_NaN) auto
  then have mean: "?mean \<noteq> NaN" using n(2) by (auto simp: f_div_def Let_def)
  have "f_sub x ?mean \<noteq> NaN" if "x \<in> set ?xs" for x
  proof -
    have "f_add (f_neg ?mean) x \<noteq> NaN"
      using that assms(1) mean by (intro f_add_right_finite_not_NaN) auto
    then show ?thesis by (simp add: f_sub_def f_add_comm [of x])
  qed
  then have "\<forall>y \<in> set (map (\<lambda>x. f_sq (f_sub x ?mean)) ?xs). f_le (Fin 0) y"
    using f_sq_nonneg by auto
  then have "f_le (Fin 0) (f_sum (map (\<lambda>x. f_sq (f_sub x ?mean)) ?xs))"
    unfolding f_sum_def by (intro foldl_f_add_nonneg) simp_all
  then show ?thesis using False n by (simp add: variance_def Let_def f_div_nonneg)
qed (simp add: variance_def)

theorem variance_nonnegative_witness:
  "f_le (Fin 0) (variance \<lparr>eh_samples = [Fin 1, Fin 3, NegZero], eh_max_samples = 10\<rparr>)"
  by (rule variance_nonnegative) simp_all

text \<open>The rounded quotient of two counts exceeds the rounded 0.3 exactly when the exact one exceeds 3/10.\<close>

lemma round_above_3_10:
  assumes "3 / 10 + 1 / 2 ^ 53 \<le> q" "q \<le> 1"
  shows "round_rat (3 / 10) < round_rat q"
proof -
  have q: "0 < q" by (rule less_le_trans [OF _ assms(1)]) simp
  have "ilog2 q \<le> ilog2 1" using ilog2_mono [OF q assms(2)] .
  also have "ilog2 1 = 0" using ilog2_unique [of 1 0] by simp
  finally have "ulp_exp q - 1 \<le> - 53" using q by (simp add: ulp_exp_def)
  then have "2 powi (ulp_exp q - 1) \<le> (2 :: rat) powi (- 53)" by (simp only: powi_le_iff)
  then have "q - 1 / 2 ^ 53 \<le> round_rat q"
    using round_rat_error [of q] powi_neg [of 53] by simp
  moreover have "round_rat (3 / 10) < 3 / 10"
  proof -
    have "\<bar>round_rat (3 / 10)\<bar> < 2 ^ 1024"
      using round_rat_mono [of "3 / 10" 1] round_rat_nonneg [of "3 / 10"] by simp
    then have "fval (flit (3 / 10)) = round_rat (3 / 10)" by (simp add: flit_pos fround_finite(2))
    then show ?thesis by (simp add: flits)
  qed
  ultimately show ?thesis using assms(1) by linarith
qed

lemma ratio_above_3_10:
  assumes "0 < n" "n \<le> 2 ^ 49" "k \<le> n"
  shows "f_lt (flit 0.3) (f_div (f_of_nat k) (f_of_nat n)) \<longleftrightarrow> 3 * n < 10 * k"
proof -
  let ?q = "of_nat k / of_nat n :: rat"
  have q: "0 \<le> ?q" "?q \<le> 1" using assms(1,3) by simp_all
  have "f_of_nat k = Fin (of_nat k)" "f_of_nat n = Fin (of_nat n)"
    using assms(2,3) by (simp_all add: f_of_nat_exact)
  then have div: "f_div (f_of_nat k) (f_of_nat n) = fround False ?q"
    using assms(1) by (simp add: f_div_def Let_def not_less)
  have fin: "finite_f64 (fround False p) \<and> fval (fround False p) = round_rat p" if "0 \<le> p" "p \<le> 1" for p
  proof -
    have "\<bar>round_rat p\<bar> \<le> 1"
      using round_rat_mono [OF that(2)] round_rat_nonneg [OF that(1)] by simp
    moreover have "(1 :: rat) < 2 ^ 1024" by simp
    ultimately have "\<bar>round_rat p\<bar> < 2 ^ 1024" by (rule le_less_trans)
    then show ?thesis using fround_finite by blast
  qed
  have gap: "3 / 10 + 1 / 2 ^ 53 \<le> ?q" if "3 / 10 < ?q"
  proof -
    have "(3 :: rat) * of_nat n < 10 * of_nat k" using that assms(1) by (simp add: field_simps)
    then have "3 * n < 10 * k" by (metis of_nat_less_iff of_nat_mult of_nat_numeral)
    then have "Suc (3 * n) \<le> 10 * k" by simp
    then have "of_nat (Suc (3 * n)) \<le> (of_nat (10 * k) :: rat)" by (simp only: of_nat_le_iff)
    then have "(1 + 3 * of_nat n) / (10 * of_nat n) \<le> (10 * of_nat k) / (10 * of_nat n :: rat)"
      by (intro divide_right_mono) simp_all
    then have "3 / 10 + 1 / (10 * of_nat n) \<le> ?q" using assms(1) by (simp add: add_divide_distrib)
    moreover have "(of_nat n :: rat) \<le> of_nat (2 ^ 49)" using assms(2) by (simp only: of_nat_le_iff)
    then have "1 / 2 ^ 53 \<le> 1 / (10 * of_nat n :: rat)" using assms(1) by (intro divide_left_mono) simp_all
    ultimately show ?thesis by linarith
  qed
  have "f_lt (flit 0.3) (f_div (f_of_nat k) (f_of_nat n)) \<longleftrightarrow> round_rat (3 / 10) < round_rat ?q"
    using fin [OF q] fin [of "3 / 10"] by (simp add: div flit_pos f_lt_finite)
  also have "\<dots> \<longleftrightarrow> 3 / 10 < ?q"
    using round_above_3_10 [OF gap q(2)] round_rat_mono [of ?q "3 / 10"] by linarith
  also have "\<dots> \<longleftrightarrow> (3 :: rat) * of_nat n < 10 * of_nat k"
    using assms(1) by (simp add: field_simps)
  also have "\<dots> \<longleftrightarrow> 3 * n < 10 * k"
    by (metis of_nat_less_iff of_nat_mult of_nat_numeral)
  finally show ?thesis .
qed

text \<open>
  C31: The oscillation test is exact despite rounding: it holds when the window has at least four
  samples and more than 30 percent of its inner samples are turning points.
\<close>

theorem oscillation_threshold_exact:
  assumes "length (eh_samples h) \<le> 2 ^ 31"
  shows "has_oscillation h \<longleftrightarrow>
    4 \<le> length (eh_samples h) \<and> 3 * (length (eh_samples h) - 2) < 10 * turns (eh_samples h)"
proof (cases "4 \<le> length (eh_samples h)")
  case True
  have pos: "0 < length (eh_samples h) - 2" using True by linarith
  have small: "length (eh_samples h) - 2 \<le> 2 ^ 49"
    by (rule order.trans [OF diff_le_self order.trans [OF assms power_increasing]]) simp_all
  have "turns (eh_samples h) \<le> length (eh_samples h) - 2"
    unfolding turns_def by (rule order.trans [OF length_filter_le]) (simp only: length_upt order.refl)
  then show ?thesis
    using ratio_above_3_10 [of "length (eh_samples h) - 2" "turns (eh_samples h)", OF pos small]
    unfolding has_oscillation_def by blast
qed (simp add: has_oscillation_def)

theorem oscillation_threshold_exact_witness:
  "has_oscillation \<lparr>eh_samples = map Fin [1, 2, 1, 2], eh_max_samples = 9\<rparr>
    \<and> \<not> has_oscillation \<lparr>eh_samples = map Fin [1, 2, 3, 4], eh_max_samples = 9\<rparr>"
proof -
  have turns: "turns (map Fin [1, 2, 1, 2]) = 2" "turns (map Fin [1, 2, 3, 4]) = 0" by code_simp+
  have len: "length (map Fin [a, b, c, d]) = 4" for a b c d by simp
  show ?thesis
    using oscillation_threshold_exact [of "\<lparr>eh_samples = map Fin [1, 2, 1, 2], eh_max_samples = 9\<rparr>"]
      oscillation_threshold_exact [of "\<lparr>eh_samples = map Fin [1, 2, 3, 4], eh_max_samples = 9\<rparr>"]
    unfolding epsilon_history.simps turns len by simp
qed

end
