(* ===== verification/Normalizer.thy ===== *)
theory Normalizer
  imports Prelude F64 CoreTypes
begin

text \<open>
  Volume normalisation of the metric tensor (\<open>kineplex-core/src/geometry.rs\<close>, FT-090). A slice
  \<open>&mut [f64]\<close> that a method updates in place is the list it returns beside its result, so what
  an early return leaves behind in the slice is part of the model. Proved: where \<open>normalize\<close>
  stops and what it has overwritten by then, that one NaN weight turns every weight into NaN and
  is answered with \<open>Ok\<close>, that clamping keeps every weight in the range of \<open>u32\<close> and returns their
  maximum, and what the stability test says for a target that is not positive.
\<close>

datatype normalization_error = ZeroVolume | WeightOverflow f64 | WeightUnderflow f64

text \<open>\<open>fmt\<close> is \<open>Display\<close> of \<open>f64\<close>; the accented letters are their UTF-8 bytes.\<close>

fun normalization_error_display :: "(f64 \<Rightarrow> string) \<Rightarrow> normalization_error \<Rightarrow> string" where
  "normalization_error_display fmt ZeroVolume =
     ''Volume total '' @ [CHR 0xC3, CHR 0xA9] @ '' zero, normaliza'' @ [CHR 0xC3, CHR 0xA7, CHR 0xC3, CHR 0xA3]
       @ ''o imposs'' @ [CHR 0xC3, CHR 0xAD] @ ''vel''"
| "normalization_error_display fmt (WeightOverflow v) = ''Overflow: valor '' @ fmt v @ '' excede u32::MAX''"
| "normalization_error_display fmt (WeightUnderflow v) = ''Underflow: valor '' @ fmt v
     @ '' '' @ [CHR 0xC3, CHR 0xA9] @ '' muito pequeno''"

record normalizer =
  target_volume :: f64
  max_tensor_value :: u32
  tolerance :: f64

definition normalizer_new :: "f64 \<Rightarrow> normalizer" where
  "normalizer_new target = \<lparr>target_volume = target, max_tensor_value = - 1, tolerance = flit 0.001\<rparr>"

definition with_tolerance :: "f64 \<Rightarrow> normalizer \<Rightarrow> normalizer" where
  "with_tolerance t n = n\<lparr>tolerance := t\<rparr>"

definition current_volume :: "f64 list \<Rightarrow> f64" where
  "current_volume weights = f_sum weights"

text \<open>The loop of \<open>normalize\<close>: a rejected weight has already been overwritten.\<close>

fun scale_weights :: "f64 \<Rightarrow> f64 list \<Rightarrow> f64 list \<times> (normalization_error + unit)" where
  "scale_weights scale [] = ([], Inr ())"
| "scale_weights scale (w # ws) =
     (let w' = f_mul w scale in
      if f_lt f_u32_max w' then (w' # ws, Inl (WeightOverflow w'))
      else if f_lt w' f_epsilon \<and> f_lt (flit 0) w' then (w' # ws, Inl (WeightUnderflow w'))
      else case scale_weights scale ws of (ws', r) \<Rightarrow> (w' # ws', r))"

definition normalize :: "f64 list \<Rightarrow> normalizer \<Rightarrow> f64 list \<times> (normalization_error + unit)" where
  "normalize weights n =
     (let volume = f_sum weights in
      if f_lt (f_abs volume) f_epsilon then (weights, Inl ZeroVolume)
      else scale_weights (f_div (target_volume n) volume) weights)"

text \<open>The loop of \<open>normalize_with_clamp\<close>; \<open>None\<close> is the panic of \<open>f64::clamp\<close>.\<close>

fun clamp_weights :: "f64 \<Rightarrow> f64 \<Rightarrow> f64 \<Rightarrow> f64 list \<Rightarrow> (f64 list \<times> f64) option" where
  "clamp_weights scale hi max_weight [] = Some ([], max_weight)"
| "clamp_weights scale hi max_weight (w # ws) = do {
     w' \<leftarrow> f_clamp (f_mul w scale) (flit 0) hi;
     (ws', m) \<leftarrow> clamp_weights scale hi (f_max max_weight w') ws;
     Some (w' # ws', m)
   }"

definition normalize_with_clamp :: "f64 list \<Rightarrow> normalizer \<Rightarrow> (f64 list \<times> f64) option" where
  "normalize_with_clamp weights n =
     (let volume = f_sum weights in
      if f_lt (f_abs volume) f_epsilon then Some (weights, flit 0)
      else clamp_weights (f_div (target_volume n) volume) (f_of_nat (unat (max_tensor_value n))) (flit 0) weights)"

definition is_within_bounds :: "f64 list \<Rightarrow> bool" where
  "is_within_bounds weights \<longleftrightarrow> (\<forall>w \<in> set weights. f_le w f_u32_max \<and> f_le (flit 0) w)"

definition is_volume_stable :: "f64 list \<Rightarrow> normalizer \<Rightarrow> bool" where
  "is_volume_stable weights n =
     f_lt (f_div (f_abs (f_sub (current_volume weights) (target_volume n))) (target_volume n)) (tolerance n)"

section \<open>Scaling in place\<close>

definition accepted :: "f64 \<Rightarrow> bool" where
  "accepted w \<longleftrightarrow> \<not> f_lt f_u32_max w \<and> \<not> (f_lt w f_epsilon \<and> f_lt (flit 0) w)"

lemma scale_weights_Ok:
  "snd (scale_weights s ws) = Inr () \<longleftrightarrow> (\<forall>w \<in> set ws. accepted (f_mul w s))"
  by (induction ws) (auto simp: accepted_def Let_def split: prod.splits)

lemma scale_weights_accepted:
  "\<forall>w \<in> set ws. accepted (f_mul w s) \<Longrightarrow> scale_weights s ws = (map (\<lambda>w. f_mul w s) ws, Inr ())"
  by (induction ws) (auto simp: accepted_def Let_def)

lemma scale_weights_prefix:
  "\<forall>w \<in> set us. accepted (f_mul w s) \<Longrightarrow>
   scale_weights s (us @ ws) = (map (\<lambda>w. f_mul w s) us @ fst (scale_weights s ws), snd (scale_weights s ws))"
  by (induction us) (auto simp: accepted_def Let_def split: prod.splits)

lemma first_rejected:
  assumes "\<not> (\<forall>w \<in> set ws. accepted (f_mul w s))"
  shows "\<exists>us w vs. ws = us @ w # vs \<and> (\<forall>u \<in> set us. accepted (f_mul u s)) \<and> \<not> accepted (f_mul w s)"
  using assms split_list_first_prop [of ws "\<lambda>w. \<not> accepted (f_mul w s)"] by blast

text \<open>
  C23: \<open>normalize\<close> has three outcomes. A volume within \<open>EPSILON\<close> of zero is an error and leaves
  the weights alone. Otherwise it scales up to the first weight whose scaled value is out of
  range: it answers with that value as an overflow or an underflow, and the weights before it and itself are overwritten while
  those after it are not. It answers \<open>Ok\<close> exactly when no scaled value is out of range, and then
  every weight is scaled.
\<close>

theorem normalize_outcome:
  "(let scale = f_div (target_volume n) (f_sum ws) in
    if f_lt (f_abs (f_sum ws)) f_epsilon then normalize ws n = (ws, Inl ZeroVolume)
    else if \<forall>w \<in> set ws. accepted (f_mul w scale) then normalize ws n = (map (\<lambda>w. f_mul w scale) ws, Inr ())
    else \<exists>us w vs e. ws = us @ w # vs \<and> \<not> accepted (f_mul w scale) \<and> (\<forall>u \<in> set us. accepted (f_mul u scale))
      \<and> normalize ws n = (map (\<lambda>w. f_mul w scale) (us @ [w]) @ vs, Inl e)
      \<and> e = (if f_lt f_u32_max (f_mul w scale) then WeightOverflow else WeightUnderflow) (f_mul w scale))"
proof -
  let ?s = "f_div (target_volume n) (f_sum ws)"
  have rejected: "\<exists>us w vs e. ws = us @ w # vs \<and> \<not> accepted (f_mul w ?s) \<and> (\<forall>u \<in> set us. accepted (f_mul u ?s))
      \<and> scale_weights ?s ws = (map (\<lambda>w. f_mul w ?s) (us @ [w]) @ vs, Inl e)
      \<and> e = (if f_lt f_u32_max (f_mul w ?s) then WeightOverflow else WeightUnderflow) (f_mul w ?s)"
    if bad: "\<not> (\<forall>w \<in> set ws. accepted (f_mul w ?s))"
  proof -
    obtain us w vs where ws: "ws = us @ w # vs" "\<forall>u \<in> set us. accepted (f_mul u ?s)" "\<not> accepted (f_mul w ?s)"
      using first_rejected [OF bad] by blast
    have e: "scale_weights ?s (w # vs) = (f_mul w ?s # vs,
        Inl ((if f_lt f_u32_max (f_mul w ?s) then WeightOverflow else WeightUnderflow) (f_mul w ?s)))"
      using ws(3) by (auto simp: accepted_def Let_def)
    have "scale_weights ?s (us @ w # vs) = (map (\<lambda>w. f_mul w ?s) (us @ [w]) @ vs,
        Inl ((if f_lt f_u32_max (f_mul w ?s) then WeightOverflow else WeightUnderflow) (f_mul w ?s)))"
      using scale_weights_prefix [OF ws(2), of "w # vs"] e by simp
    then show ?thesis using ws by metis
  qed
  show ?thesis
  proof (cases "f_lt (f_abs (f_sum ws)) f_epsilon \<or> (\<forall>w \<in> set ws. accepted (f_mul w ?s))")
    case True
    then show ?thesis by (auto simp: normalize_def Let_def scale_weights_accepted)
  next
    case False
    then have "normalize ws n = scale_weights ?s ws" by (simp add: normalize_def Let_def)
    with False rejected show ?thesis by (simp only: Let_def de_Morgan_disj if_False simp_thms)
  qed
qed

theorem normalize_outcome_witness:
  "normalize [Fin 1, Fin 3, Fin 4] (normalizer_new (Fin (2 ^ 35))) =
     ([Fin (2 ^ 32), Fin 3, Fin 4], Inl (WeightOverflow (Fin (2 ^ 32))))"
proof -
  let ?ws = "[Fin 1, Fin 3, Fin 4]" and ?n = "normalizer_new (Fin (2 ^ 35))"
  have ex: "fround False (of_nat n) = Fin (of_nat n)" if "0 < n" "n \<le> 2 ^ 53" for n
    using that by (intro fround_exact [of _ "int n" 0]) simp_all
  have sum: "f_sum ?ws = Fin 8"
    using ex [of 1] ex [of 4] ex [of 8] by (simp add: f_sum_def f_add_def)
  have scale: "f_div (target_volume ?n) (f_sum ?ws) = Fin (2 ^ 32)"
    using ex [of "2 ^ 32"] unfolding sum by (simp add: f_div_def normalizer_new_def)
  have first: "f_mul (Fin 1) (Fin (2 ^ 32)) = Fin (2 ^ 32)"
    using ex [of "2 ^ 32"] by (simp add: f_mul_def)
  have over: "f_lt f_u32_max (Fin (2 ^ 32))" "\<not> f_lt (f_abs (Fin 8)) f_epsilon"
    by (simp_all add: f_u32_max_def f_epsilon_def f_lt_def)
  then have bad: "\<not> accepted (f_mul (Fin 1) (Fin (2 ^ 32)))" unfolding accepted_def first by blast
  have "us = []" if "?ws = us @ w # vs" "\<forall>u \<in> set us. accepted (f_mul u (Fin (2 ^ 32)))" for us w vs
    using that bad by (cases us) auto
  with normalize_outcome [of ?n ?ws] show ?thesis
    unfolding Let_def scale unfolding sum using over bad first by fastforce
qed

lemma f_sum_NaN: "NaN \<in> set ws \<Longrightarrow> f_sum ws = NaN"
proof -
  have "foldl f_add NaN xs = NaN" for xs by (induction xs) simp_all
  then have "NaN \<in> set ws \<Longrightarrow> foldl f_add a ws = NaN" for a by (induction ws arbitrary: a) auto
  then show "NaN \<in> set ws \<Longrightarrow> f_sum ws = NaN" by (simp add: f_sum_def)
qed

text \<open>
  One NaN weight is not an error for \<open>normalize\<close>: it answers \<open>Ok\<close> and every weight of the
  slice is NaN afterwards, the clamping variant likewise, with a maximum of 0.
\<close>

theorem NaN_weight_spreads:
  assumes "NaN \<in> set ws"
  shows "normalize ws n = (replicate (length ws) NaN, Inr ())
    \<and> normalize_with_clamp ws n = Some (replicate (length ws) NaN, Fin 0)"
proof -
  have n: "normalize ws n = scale_weights NaN ws" and
    c: "normalize_with_clamp ws n = clamp_weights NaN (f_of_nat (unat (max_tensor_value n))) (flit 0) ws"
    using f_sum_NaN [OF assms] by (simp_all add: normalize_def normalize_with_clamp_def Let_def)
  have "f_le (Fin 0) (f_of_nat (unat (max_tensor_value n)))"
    unfolding f_of_nat_def by (rule fround_nonneg) (rule of_nat_0_le_iff)
  then have "clamp_weights NaN (f_of_nat (unat (max_tensor_value n))) (Fin 0) us = Some (replicate (length us) NaN, Fin 0)" for us
    by (induction us) (simp_all add: f_clamp_def f_max_def)
  moreover have "scale_weights NaN us = (replicate (length us) NaN, Inr ())" for us
    by (induction us) (simp_all add: Let_def)
  ultimately show ?thesis by (simp add: n c)
qed

theorem NaN_weight_spreads_witness:
  "normalize [Fin 1, NaN, Fin 2] (normalizer_new (Fin 1)) = (replicate 3 NaN, Inr ())
    \<and> normalize_with_clamp [Fin 1, NaN, Fin 2] (normalizer_new (Fin 1)) = Some (replicate 3 NaN, Fin 0)"
  using NaN_weight_spreads [of "[Fin 1, NaN, Fin 2]" "normalizer_new (Fin 1)"] by (simp add: eval_nat_numeral)

section \<open>Clamping\<close>

lemma f_le_total: "a \<noteq> NaN \<Longrightarrow> b \<noteq> NaN \<Longrightarrow> f_le a b \<or> f_le b a"
  using f_lt_iff_not_le f_lt_imp_le by blast

lemma f_max_le: "f_le a (f_max a b) \<or> a = NaN" "f_le b (f_max a b) \<or> b = NaN"
  using f_le_total [of a b] by (auto simp: f_max_def f_lt_iff_not_le f_le_refl)

lemma f_max_cases: "f_max a b = a \<or> (f_max a b = b \<and> b \<noteq> NaN)"
  by (simp add: f_max_def)

lemma clamp_weights_result:
  assumes "f_le (Fin 0) hi" "f_le (Fin 0) m0" "f_le m0 hi"
  shows "\<exists>ws' m. clamp_weights s hi m0 ws = Some (ws', m) \<and> length ws' = length ws
    \<and> list_all2 (\<lambda>w w'. f_clamp (f_mul w s) (Fin 0) hi = Some w') ws ws'
    \<and> (\<forall>w \<in> set ws'. w = NaN \<or> (f_le (Fin 0) w \<and> f_le w m)) \<and> f_le m0 m \<and> f_le m hi \<and> m \<in> insert m0 (set ws')"
  using assms(2,3)
proof (induction ws arbitrary: m0)
  case Nil
  then show ?case by (auto intro: f_le_refl)
next
  case (Cons w ws)
  obtain w' where w': "f_clamp (f_mul w s) (Fin 0) hi = Some w'" using assms(1) by (simp add: f_clamp_def)
  have range: "w' = NaN \<or> (f_le (Fin 0) w' \<and> f_le w' hi)" using f_clamp_range [OF w'] by blast
  let ?m = "f_max m0 w'"
  have m: "f_le m0 ?m" "w' = NaN \<or> f_le w' ?m" "?m = m0 \<or> ?m = w' \<and> w' \<noteq> NaN"
    using f_max_le [where a = m0 and b = w'] f_max_cases [of m0 w'] f_le_NaN(2) Cons.prems(1) by metis+
  have hi: "f_le ?m hi" using Cons.prems(2) range m(3) by metis
  have "f_le (Fin 0) ?m" using Cons.prems(1) m(1) by (rule f_le_trans)
  from Cons.IH [OF this hi] obtain ws' m' where ih: "clamp_weights s hi ?m ws = Some (ws', m')"
      "length ws' = length ws" "list_all2 (\<lambda>w w'. f_clamp (f_mul w s) (Fin 0) hi = Some w') ws ws'"
      "\<forall>w \<in> set ws'. w = NaN \<or> (f_le (Fin 0) w \<and> f_le w m')" "f_le ?m m'" "f_le m' hi"
      "m' \<in> insert ?m (set ws')" by blast
  have "w' = NaN \<or> (f_le (Fin 0) w' \<and> f_le w' m')" using range m(2) ih(5) f_le_trans by blast
  moreover have "f_le m0 m'" using m(1) ih(5) by (rule f_le_trans)
  ultimately show ?case using w' ih m(3) by auto
qed

text \<open>
  C24: The clamping variant never panics, and has two outcomes. A volume within \<open>EPSILON\<close> of zero
  is answered with 0 and leaves the weights alone, so there they need not lie in any range.
  Otherwise every weight becomes its product with \<open>target / volume\<close> clamped to between 0 and
  \<open>max_tensor_value\<close>; every weight left is NaN or lies between 0 and the maximum returned, which is at most
  \<open>max_tensor_value\<close> and is 0 or one of the weights; and when no weight left is NaN, they pass
  \<open>is_within_bounds\<close>.
\<close>

theorem normalize_with_clamp_bounds:
  "(if f_lt (f_abs (f_sum ws)) f_epsilon then normalize_with_clamp ws n = Some (ws, Fin 0)
    else \<exists>ws' m. normalize_with_clamp ws n = Some (ws', m)
      \<and> list_all2 (\<lambda>w w'. f_clamp (f_mul w (f_div (target_volume n) (f_sum ws))) (Fin 0)
          (Fin (of_nat (unat (max_tensor_value n)))) = Some w') ws ws'
      \<and> (\<forall>w \<in> set ws'. w = NaN \<or> (f_le (Fin 0) w \<and> f_le w m))
      \<and> f_le m (Fin (of_nat (unat (max_tensor_value n)))) \<and> m \<in> insert (Fin 0) (set ws')
      \<and> (NaN \<notin> set ws' \<longrightarrow> is_within_bounds ws'))"
proof (cases "f_lt (f_abs (f_sum ws)) f_epsilon")
  case True
  then show ?thesis by (simp add: normalize_with_clamp_def)
next
  case False
  let ?u = "unat (max_tensor_value n)" and ?s = "f_div (target_volume n) (f_sum ws)"
  have u: "?u \<le> 2 ^ 32 - 1" using unat_below [of "max_tensor_value n"] by simp
  then have hi: "f_of_nat ?u = Fin (of_nat ?u)" by (simp add: f_of_nat_exact)
  have "(of_nat ?u :: rat) \<le> of_nat (2 ^ 32 - 1)" using u by (simp only: of_nat_le_iff)
  then have bound: "f_le (Fin (of_nat ?u)) f_u32_max" by (simp add: f_u32_max_def)
  have hi0: "f_le (Fin 0) (Fin (of_nat ?u))" and 0: "f_le (Fin 0) (Fin 0)"
    by (simp_all only: f_le_Fin of_nat_0_le_iff order.refl)
  obtain ws' m where r: "normalize_with_clamp ws n = Some (ws', m)"
      "list_all2 (\<lambda>w w'. f_clamp (f_mul w ?s) (Fin 0) (Fin (of_nat ?u)) = Some w') ws ws'"
      "\<forall>w \<in> set ws'. w = NaN \<or> (f_le (Fin 0) w \<and> f_le w m)" "f_le m (Fin (of_nat ?u))" "m \<in> insert (Fin 0) (set ws')"
    using clamp_weights_result [OF hi0 0 hi0, of ?s ws] False
    by (auto simp: normalize_with_clamp_def Let_def hi)
  have "is_within_bounds ws'" if "NaN \<notin> set ws'"
    unfolding is_within_bounds_def flit_0
  proof
    fix w assume "w \<in> set ws'"
    with r(3) that have "f_le (Fin 0) w" "f_le w m" by fastforce+
    then show "f_le w f_u32_max \<and> f_le (Fin 0) w" using r(4) bound f_le_trans by blast
  qed
  with r False show ?thesis by auto
qed

theorem normalize_with_clamp_bounds_witness:
  "normalize_with_clamp [Fin 5, Fin (- 5)] (normalizer_new (Fin 1)) = Some ([Fin 5, Fin (- 5)], Fin 0)
    \<and> (\<exists>w m. normalize_with_clamp [PosInf, Fin (- 3)] (normalizer_new (Fin 1)) = Some ([NaN, w], m)
        \<and> f_le (Fin 0) w \<and> f_le w m)"
proof -
  let ?n = "normalizer_new (Fin 1)"
  have "fround False 5 = Fin 5" by (rule fround_exact [of _ 5 0]) simp_all
  then have "f_sum [Fin 5, Fin (- 5)] = Fin 0" by (simp add: f_sum_def f_add_def fround_def [of False 0] fzero_def)
  then have "f_lt (f_abs (f_sum [Fin 5, Fin (- 5)])) f_epsilon" by (simp add: f_epsilon_def)
  then have 1: "normalize_with_clamp [Fin 5, Fin (- 5)] ?n = Some ([Fin 5, Fin (- 5)], Fin 0)"
    using normalize_with_clamp_bounds [of "[Fin 5, Fin (- 5)]" ?n] by simp
  have sum: "f_sum [PosInf, Fin (- 3)] = PosInf" by (simp add: f_sum_def f_add_def)
  then have big: "\<not> f_lt (f_abs (f_sum [PosInf, Fin (- 3)])) f_epsilon" by (simp add: f_lt_def f_epsilon_def)
  have scaled: "f_mul PosInf (f_div (Fin 1) PosInf) = NaN" "f_mul (Fin (- 3)) (f_div (Fin 1) PosInf) = NegZero"
    by (simp_all add: f_div_def f_mul_def fzero_def fround_def)
  obtain ws' m where r: "normalize_with_clamp [PosInf, Fin (- 3)] ?n = Some (ws', m)"
      "list_all2 (\<lambda>w w'. f_clamp (f_mul w (f_div (Fin 1) PosInf)) (Fin 0) (Fin (of_nat (unat (max_tensor_value ?n)))) = Some w')
        [PosInf, Fin (- 3)] ws'"
      "\<forall>w \<in> set ws'. w = NaN \<or> (f_le (Fin 0) w \<and> f_le w m)"
    using normalize_with_clamp_bounds [of "[PosInf, Fin (- 3)]" ?n] big unfolding sum
    by (auto simp: normalizer_new_def)
  then have "\<exists>w. ws' = [NaN, w] \<and> w \<noteq> NaN"
    by (auto simp: list_all2_Cons1 scaled f_clamp_def f_lt_def split: if_splits)
  with 1 r(1,3) show ?thesis by auto
qed

text \<open>For a negative target every finite volume counts as stable; for target zero none does.\<close>

lemma volume_stable_negative_target:
  assumes "finite_f64 (target_volume n)" "fval (target_volume n) < 0"
    and "finite_f64 (f_sub (current_volume ws) (target_volume n))"
    and "f_lt (Fin 0) (tolerance n)"
  shows "is_volume_stable ws n"
proof -
  let ?d = "f_abs (f_sub (current_volume ws) (target_volume n))" and ?t = "target_volume n"
  have d: "finite_f64 ?d" "0 \<le> fval ?d" and t: "?t \<noteq> NaN" "?d \<noteq> NaN" using assms(1,3) by auto
  have "fval ?d / fval ?t \<le> 0" using d(2) assms(2) by (simp add: divide_nonneg_neg)
  then have "f_le (fround s (fval ?d / fval ?t)) (Fin 0)" for s
    using fround_mono [of "fval ?d / fval ?t" 0 s False] by (simp add: fround_def [of False 0] fzero_def)
  then have "f_le (f_div ?d ?t) (Fin 0)" using d t assms(1,2) by (simp add: f_div_def Let_def)
  then show ?thesis
    using assms(4) f_le_trans f_lt_iff_not_le
    by (metis f_le_NaN(1) f_le_NaN(2) f_lt_NaN(2) is_volume_stable_def)
qed

lemma volume_stable_zero_target:
  assumes "target_volume n = Fin 0" "finite_f64 (tolerance n)"
  shows "\<not> is_volume_stable ws n"
proof -
  let ?d = "f_abs (f_sub (current_volume ws) (Fin 0))"
  have "\<not> fsign ?d" by (cases "f_sub (current_volume ws) (Fin 0)") auto
  then have "f_div ?d (Fin 0) = NaN \<or> f_div ?d (Fin 0) = PosInf"
    by (cases ?d) (auto simp: f_div_def Let_def finf_def)
  then show ?thesis using assms by (cases "tolerance n") (auto simp: is_volume_stable_def f_lt_def)
qed

end
