(* ===== verification/Simplex.thy ===== *)
theory Simplex
  imports Prelude
begin

text \<open>
  Triangle discovery over the node graph (\<open>kineplex-core/src/geometry.rs\<close>, FT-091). The
  adjacency is a \<open>HashMap<GeoNodeId, HashSet<GeoNodeId>>\<close>: a map to sets. Operations that
  iterate take the iteration order: \<open>es\<close> of the map and \<open>nbrs n\<close> of the neighbour set of \<open>n\<close>.
  Proved: every reachable adjacency is symmetric and closed, \<open>find_triangles\<close> lists every
  three-clique exactly once, \<open>count_edges\<close> counts the undirected edges (and half the loops), the
  recursive search terminates, and \<open>partitions\<close> are the connected components.
\<close>

datatype geo_node_id = GeoNodeId string

type_synonym adjacency = "geo_node_id \<rightharpoonup> geo_node_id set"

definition simplex_new :: adjacency where
  "simplex_new = Map.empty"

text \<open>\<open>entry(a).or_default().insert(b)\<close>.\<close>

definition insert_neighbor :: "geo_node_id \<Rightarrow> geo_node_id \<Rightarrow> adjacency \<Rightarrow> adjacency" where
  "insert_neighbor a b adj = adj(a \<mapsto> insert b (case adj a of None \<Rightarrow> {} | Some s \<Rightarrow> s))"

definition add_edge :: "geo_node_id \<Rightarrow> geo_node_id \<Rightarrow> adjacency \<Rightarrow> adjacency" where
  "add_edge a b adj = insert_neighbor b a (insert_neighbor a b adj)"

definition delete_neighbor :: "geo_node_id \<Rightarrow> geo_node_id \<Rightarrow> adjacency \<Rightarrow> adjacency" where
  "delete_neighbor a b adj = (case adj a of None \<Rightarrow> adj | Some s \<Rightarrow> adj(a \<mapsto> s - {b}))"

definition remove_edge :: "geo_node_id \<Rightarrow> geo_node_id \<Rightarrow> adjacency \<Rightarrow> adjacency" where
  "remove_edge a b adj = delete_neighbor b a (delete_neighbor a b adj)"

definition is_connected :: "adjacency \<Rightarrow> geo_node_id \<Rightarrow> geo_node_id \<Rightarrow> bool" where
  "is_connected adj a b = (case adj a of None \<Rightarrow> False | Some s \<Rightarrow> b \<in> s)"

definition find_triangles ::
  "(geo_node_id \<times> geo_node_id set) list \<Rightarrow> adjacency \<Rightarrow> (geo_node_id \<times> geo_node_id \<times> geo_node_id) list" where
  "find_triangles es adj =
     (let nodes = map fst es; n = length nodes in
      concat (map (\<lambda>i. concat (map (\<lambda>j. concat (map (\<lambda>k.
        let a = nodes ! i; b = nodes ! j; c = nodes ! k in
        if is_connected adj a b \<and> is_connected adj b c \<and> is_connected adj c a then [(a, b, c)] else [])
        [j + 1..<n])) [i + 1..<n])) [0..<n]))"

definition count_edges :: "(geo_node_id \<times> geo_node_id set) list \<Rightarrow> nat" where
  "count_edges es = sum_list (map (\<lambda>e. card (snd e)) es) div 2"

definition betti_number :: "(geo_node_id \<times> geo_node_id set) list \<Rightarrow> adjacency \<Rightarrow> int" where
  "betti_number es adj =
     (let triangles = length (find_triangles es adj); edges = count_edges es; nodes = length es in
      if 0 < nodes then int edges - int nodes + int triangles + 1 else 0)"

text \<open>
  The recursive search; its state is the visited set and the component collected so far. \<open>f\<close>
  bounds the recursion depth: \<open>None\<close> is running out of it.
\<close>

fun dfs_collect ::
    "adjacency \<Rightarrow> (geo_node_id \<Rightarrow> geo_node_id list) \<Rightarrow> nat \<Rightarrow> geo_node_id \<Rightarrow>
     geo_node_id set \<times> geo_node_id list \<Rightarrow> (geo_node_id set \<times> geo_node_id list) option"
  and visit_neighbors ::
    "adjacency \<Rightarrow> (geo_node_id \<Rightarrow> geo_node_id list) \<Rightarrow> nat \<Rightarrow> geo_node_id list \<Rightarrow>
     geo_node_id set \<times> geo_node_id list \<Rightarrow> (geo_node_id set \<times> geo_node_id list) option" where
  "dfs_collect adj nbrs 0 node st = None"
| "dfs_collect adj nbrs (Suc f) node (visited, component) =
     (case adj node of
        None \<Rightarrow> Some (insert node visited, component @ [node])
      | Some _ \<Rightarrow> visit_neighbors adj nbrs f (nbrs node) (insert node visited, component @ [node]))"
| "visit_neighbors adj nbrs f [] st = Some st"
| "visit_neighbors adj nbrs f (m # ms) (visited, component) =
     (if m \<in> visited then visit_neighbors adj nbrs f ms (visited, component)
      else dfs_collect adj nbrs f m (visited, component) \<bind> visit_neighbors adj nbrs f ms)"

fun partition_loop ::
  "adjacency \<Rightarrow> (geo_node_id \<Rightarrow> geo_node_id list) \<Rightarrow> nat \<Rightarrow> geo_node_id list \<Rightarrow>
   geo_node_id set \<Rightarrow> geo_node_id list list option" where
  "partition_loop adj nbrs f [] visited = Some []"
| "partition_loop adj nbrs f (n # ns) visited =
     (if n \<in> visited then partition_loop adj nbrs f ns visited
      else do {
        (visited', component) \<leftarrow> dfs_collect adj nbrs f n (visited, []);
        rest \<leftarrow> partition_loop adj nbrs f ns visited';
        Some (component # rest)
      })"

text \<open>The stack never gets deeper than the number of nodes.\<close>

definition partitions ::
  "(geo_node_id \<times> geo_node_id set) list \<Rightarrow> (geo_node_id \<Rightarrow> geo_node_id list) \<Rightarrow> adjacency \<Rightarrow>
   geo_node_id list list option" where
  "partitions es nbrs adj = partition_loop adj nbrs (length es) (map fst es) {}"

section \<open>Well-formed adjacencies\<close>

definition adj_ok :: "adjacency \<Rightarrow> bool" where
  "adj_ok adj \<longleftrightarrow> finite (dom adj)
     \<and> (\<forall>a s. adj a = Some s \<longrightarrow> s \<subseteq> dom adj)
     \<and> (\<forall>a b. is_connected adj a b \<longrightarrow> is_connected adj b a)"

lemma simplex_new_ok: "adj_ok simplex_new"
  by (simp add: adj_ok_def simplex_new_def is_connected_def)

lemma is_connected_insert:
  "is_connected (insert_neighbor a b adj) x y \<longleftrightarrow> is_connected adj x y \<or> (x = a \<and> y = b)"
  by (auto simp: is_connected_def insert_neighbor_def split: option.splits)

lemma is_connected_delete:
  "is_connected (delete_neighbor a b adj) x y \<longleftrightarrow> is_connected adj x y \<and> \<not> (x = a \<and> y = b)"
  by (auto simp: is_connected_def delete_neighbor_def split: option.splits)

lemma is_connected_add_edge [simp]:
  "is_connected (add_edge a b adj) x y \<longleftrightarrow> is_connected adj x y \<or> (x = a \<and> y = b) \<or> (x = b \<and> y = a)"
  by (auto simp: add_edge_def is_connected_insert)

lemma is_connected_remove_edge [simp]:
  "is_connected (remove_edge a b adj) x y \<longleftrightarrow> is_connected adj x y \<and> \<not> (x = a \<and> y = b) \<and> \<not> (x = b \<and> y = a)"
  by (auto simp: remove_edge_def is_connected_delete)

lemma dom_insert_neighbor [simp]: "dom (insert_neighbor a b adj) = insert a (dom adj)"
  by (simp add: insert_neighbor_def)

lemma dom_delete_neighbor [simp]: "dom (delete_neighbor a b adj) = dom adj"
  by (auto simp: delete_neighbor_def split: option.splits)

lemma adj_subset_iff: "(\<forall>a s. adj a = Some s \<longrightarrow> s \<subseteq> D) \<longleftrightarrow> (\<forall>a b. is_connected adj a b \<longrightarrow> b \<in> D)"
  unfolding is_connected_def by (fastforce split: option.splits)

lemma add_edge_ok: "adj_ok adj \<Longrightarrow> adj_ok (add_edge a b adj)"
  unfolding adj_ok_def adj_subset_iff is_connected_add_edge by (auto simp: add_edge_def)

lemma remove_edge_ok: "adj_ok adj \<Longrightarrow> adj_ok (remove_edge a b adj)"
  unfolding adj_ok_def adj_subset_iff is_connected_remove_edge by (auto simp: remove_edge_def)

lemma connected_in_dom: "adj_ok adj \<Longrightarrow> is_connected adj a b \<Longrightarrow> a \<in> dom adj \<and> b \<in> dom adj"
  unfolding adj_ok_def adj_subset_iff by (auto simp: is_connected_def split: option.splits)

text \<open>An edge list, added edge by edge; removals may be interleaved.\<close>

datatype edge_op = AddEdge geo_node_id geo_node_id | RemoveEdge geo_node_id geo_node_id

fun apply_edge_op :: "edge_op \<Rightarrow> adjacency \<Rightarrow> adjacency" where
  "apply_edge_op (AddEdge a b) adj = add_edge a b adj"
| "apply_edge_op (RemoveEdge a b) adj = remove_edge a b adj"

fun op_edge :: "edge_op \<Rightarrow> geo_node_id set" where
  "op_edge (AddEdge a b) = {a, b}"
| "op_edge (RemoveEdge a b) = {a, b}"

fun is_add :: "edge_op \<Rightarrow> bool" where
  "is_add (AddEdge a b) = True"
| "is_add (RemoveEdge a b) = False"

text \<open>The abstract contents: the set of undirected edges.\<close>

definition edge_set :: "adjacency \<Rightarrow> geo_node_id set set" where
  "edge_set adj = {{a, b} | a b. is_connected adj a b}"

lemma edge_set_iff: "adj_ok adj \<Longrightarrow> {a, b} \<in> edge_set adj \<longleftrightarrow> is_connected adj a b"
  unfolding edge_set_def adj_ok_def by (auto simp: doubleton_eq_iff)

text \<open>
  C14: After any sequence of added and removed edges the adjacency is symmetric and mentions only
  its own nodes, and it is exactly the undirected edge set: an edge is present when the last
  operation on it, in either direction, was an addition.
\<close>

theorem edges_follow_last_operation:
  "(let adj = fold apply_edge_op ops simplex_new in
    adj_ok adj \<and> (is_connected adj a b \<longleftrightarrow>
      (case filter (\<lambda>op. op_edge op = {a, b}) (rev ops) of [] \<Rightarrow> False | op # _ \<Rightarrow> is_add op)))"
proof (induction ops rule: rev_induct)
  case Nil
  then show ?case by (simp add: simplex_new_ok) (simp add: is_connected_def simplex_new_def)
next
  case (snoc op ops)
  then show ?case
    by (cases op) (auto simp: Let_def add_edge_ok remove_edge_ok doubleton_eq_iff)
qed

section \<open>Counting edges\<close>

definition directed_edges :: "adjacency \<Rightarrow> (geo_node_id \<times> geo_node_id) set" where
  "directed_edges adj = {(a, b). is_connected adj a b}"

definition loops :: "adjacency \<Rightarrow> geo_node_id set" where
  "loops adj = {a. is_connected adj a a}"

definition proper_edges :: "adjacency \<Rightarrow> geo_node_id set set" where
  "proper_edges adj = {{a, b} | a b. is_connected adj a b \<and> a \<noteq> b}"

lemma directed_edges_finite:
  assumes "adj_ok adj"
  shows "finite (directed_edges adj)"
proof (rule finite_subset)
  show "directed_edges adj \<subseteq> dom adj \<times> dom adj"
    using connected_in_dom [OF assms] by (auto simp: directed_edges_def)
  show "finite (dom adj \<times> dom adj)" using assms by (simp add: adj_ok_def)
qed

lemma degree_sum:
  assumes "iterates es adj" "adj_ok adj"
  shows "sum_list (map (\<lambda>e. card (snd e)) es) = card (directed_edges adj)"
proof -
  have fin: "\<forall>e \<in> set es. finite (snd e)"
  proof
    fix e assume "e \<in> set es"
    then have "adj (fst e) = Some (snd e)" using iterates_lookup [OF assms(1)] by simp
    then show "finite (snd e)" using assms(2) finite_subset [of "snd e" "dom adj"] by (auto simp: adj_ok_def)
  qed
  have "directed_edges adj = (\<Union>e \<in> set es. {fst e} \<times> snd e)"
  proof
    show "directed_edges adj \<subseteq> (\<Union>e \<in> set es. {fst e} \<times> snd e)"
      by (auto simp: directed_edges_def is_connected_def iterates_lookup [OF assms(1)] split: option.splits)
    show "(\<Union>e \<in> set es. {fst e} \<times> snd e) \<subseteq> directed_edges adj"
      by (auto simp: directed_edges_def is_connected_def iterates_lookup [OF assms(1), symmetric])
  qed
  also have "card \<dots> = (\<Sum>e \<in> set es. card ({fst e} \<times> snd e))"
    using fin iterates_distinct [OF assms(1)]
    by (intro card_UN_disjoint) (auto simp: distinct_map inj_on_def)
  also have "\<dots> = sum_list (map (\<lambda>e. card (snd e)) es)"
    using iterates_distinct_entries [OF assms(1)] by (simp add: sum_list_distinct_conv_sum_set card_cartesian_product_singleton)
  finally show ?thesis by simp
qed

lemma fiber_card:
  assumes "adj_ok adj" "E \<in> proper_edges adj"
  shows "card {p \<in> directed_edges adj. fst p \<noteq> snd p \<and> {fst p, snd p} = E} = 2"
proof -
  obtain a b where ab: "E = {a, b}" "is_connected adj a b" "a \<noteq> b"
    using assms(2) by (auto simp: proper_edges_def)
  have "is_connected adj b a" using ab(2) assms(1) by (auto simp: adj_ok_def)
  then have "{p \<in> directed_edges adj. fst p \<noteq> snd p \<and> {fst p, snd p} = E} = {(a, b), (b, a)}"
    using ab by (auto simp: directed_edges_def doubleton_eq_iff)
  then show ?thesis using ab(3) by simp
qed

lemma fibers: "{p \<in> D. P p} = (\<Union>E \<in> g ` {p \<in> D. P p}. {p \<in> D. P p \<and> g p = E})"
  by blast

lemma directed_edges_card:
  assumes "adj_ok adj"
  shows "card (directed_edges adj) = 2 * card (proper_edges adj) + card (loops adj)"
proof -
  let ?D = "directed_edges adj" and ?F = "\<lambda>E. {p \<in> directed_edges adj. fst p \<noteq> snd p \<and> {fst p, snd p} = E}"
  note fin = directed_edges_finite [OF assms]
  have P: "proper_edges adj = (\<lambda>p. {fst p, snd p}) ` {p \<in> ?D. fst p \<noteq> snd p}"
  proof (intro equalityI subsetI)
    fix E assume "E \<in> proper_edges adj"
    then obtain a b where "E = {a, b}" "is_connected adj a b" "a \<noteq> b" by (auto simp: proper_edges_def)
    then show "E \<in> (\<lambda>p. {fst p, snd p}) ` {p \<in> ?D. fst p \<noteq> snd p}"
      by (intro image_eqI [of _ _ "(a, b)"]) (simp_all add: directed_edges_def)
  next
    fix E assume "E \<in> (\<lambda>p. {fst p, snd p}) ` {p \<in> ?D. fst p \<noteq> snd p}"
    then obtain p where "E = {fst p, snd p}" "p \<in> ?D" "fst p \<noteq> snd p" by blast
    then show "E \<in> proper_edges adj" by (cases p) (auto simp: proper_edges_def directed_edges_def)
  qed
  have "{p \<in> ?D. fst p \<noteq> snd p} = (\<Union>E \<in> proper_edges adj. ?F E)" unfolding P by (rule fibers)
  also have "card \<dots> = (\<Sum>E \<in> proper_edges adj. card (?F E))"
  proof (rule card_UN_disjoint)
    show "finite (proper_edges adj)" unfolding P using fin by simp
    show "\<forall>E \<in> proper_edges adj. finite (?F E)" using fin by simp
    show "\<forall>E \<in> proper_edges adj. \<forall>E' \<in> proper_edges adj. E \<noteq> E' \<longrightarrow> ?F E \<inter> ?F E' = {}" by blast
  qed
  also have "\<dots> = 2 * card (proper_edges adj)" using fiber_card [OF assms] by simp
  finally have proper: "card {p \<in> ?D. fst p \<noteq> snd p} = 2 * card (proper_edges adj)" .
  have "{p \<in> ?D. fst p = snd p} = (\<lambda>a. (a, a)) ` loops adj"
    by (auto simp: loops_def directed_edges_def)
  then have "card {p \<in> ?D. fst p = snd p} = card (loops adj)" by (simp add: card_image inj_on_def)
  moreover have "card ?D = card ({p \<in> ?D. fst p \<noteq> snd p} \<union> {p \<in> ?D. fst p = snd p})"
    by (rule arg_cong [where f = card]) blast
  then have "card ?D = card {p \<in> ?D. fst p \<noteq> snd p} + card {p \<in> ?D. fst p = snd p}"
    using fin by (subst (asm) card_Un_disjoint) auto
  ultimately show ?thesis using proper by simp
qed

text \<open>
  \<open>count_edges\<close> is the number of undirected edges between different nodes, plus half the
  number of loops, rounded down: a single loop is not counted at all.
\<close>

lemma count_edges_sets:
  assumes "adj_ok adj" and "iterates es adj"
  shows "count_edges es = card (proper_edges adj) + card (loops adj) div 2"
  by (simp add: count_edges_def degree_sum [OF assms(2,1)] directed_edges_card [OF assms(1)])

section \<open>Triangles\<close>

definition triangle_indices :: "nat \<Rightarrow> (nat \<times> nat \<times> nat) list" where
  "triangle_indices n = concat (map (\<lambda>i. map (Pair i) (concat (map (\<lambda>j. map (Pair j) [j + 1..<n]) [i + 1..<n]))) [0..<n])"

lemma distinct_tagged:
  "distinct xs \<Longrightarrow> (\<And>x. distinct (f x)) \<Longrightarrow> distinct (concat (map (\<lambda>x. map (Pair x) (f x)) xs))"
  by (induction xs) (auto simp: distinct_map inj_on_def)

lemma triangle_indices_distinct: "distinct (triangle_indices n)"
  unfolding triangle_indices_def by (intro distinct_tagged) simp_all

lemma set_triangle_indices: "set (triangle_indices n) = {(i, j, k). i < j \<and> j < k \<and> k < n}"
  by (auto simp: triangle_indices_def image_iff)

definition triangle_at :: "adjacency \<Rightarrow> geo_node_id list \<Rightarrow> nat \<times> nat \<times> nat \<Rightarrow> bool" where
  "triangle_at adj ns = (\<lambda>(i, j, k). is_connected adj (ns ! i) (ns ! j) \<and> is_connected adj (ns ! j) (ns ! k)
     \<and> is_connected adj (ns ! k) (ns ! i))"

lemma concat_if: "concat (map (\<lambda>x. if P x then [f x] else []) xs) = map f (filter P xs)"
  by (induction xs) simp_all

lemma find_triangles_indices:
  "find_triangles es adj = map (\<lambda>(i, j, k). (map fst es ! i, map fst es ! j, map fst es ! k))
     (filter (triangle_at adj (map fst es)) (triangle_indices (length es)))"
  by (simp add: find_triangles_def triangle_indices_def Let_def concat_if filter_concat map_concat filter_map
      comp_def triangle_at_def)

definition triangle_set :: "geo_node_id \<times> geo_node_id \<times> geo_node_id \<Rightarrow> geo_node_id set" where
  "triangle_set = (\<lambda>(a, b, c). {a, b, c})"

definition three_cliques :: "adjacency \<Rightarrow> geo_node_id set set" where
  "three_cliques adj = {S. card S = 3 \<and> (\<forall>a \<in> S. \<forall>b \<in> S. a \<noteq> b \<longrightarrow> is_connected adj a b)}"

lemma sorted_triple:
  assumes "distinct ns" "{a, b, c} \<subseteq> set ns" "a \<noteq> b" "b \<noteq> c" "a \<noteq> c"
  shows "\<exists>i j k. i < j \<and> j < k \<and> k < length ns \<and> {ns ! i, ns ! j, ns ! k} = {a, b, c}"
proof -
  obtain x y z where xyz: "x < length ns" "y < length ns" "z < length ns" "ns ! x = a" "ns ! y = b" "ns ! z = c"
    using assms(2) by (auto simp: in_set_conv_nth)
  then have "x \<noteq> y" "y \<noteq> z" "x \<noteq> z" using assms(3-) by auto
  then consider "x < y \<and> y < z" | "x < z \<and> z < y" | "y < x \<and> x < z" | "y < z \<and> z < x" | "z < x \<and> x < y" | "z < y \<and> y < x"
    by linarith
  then show ?thesis by cases (use xyz in blast)+
qed

definition index_set :: "geo_node_id list \<Rightarrow> nat \<times> nat \<times> nat \<Rightarrow> geo_node_id set" where
  "index_set ns = (\<lambda>(i, j, k). {ns ! i, ns ! j, ns ! k})"

lemma find_triangles_sets:
  "map triangle_set (find_triangles es adj) =
     map (index_set (map fst es)) (filter (triangle_at adj (map fst es)) (triangle_indices (length es)))"
  by (auto simp: find_triangles_indices triangle_set_def index_set_def)

text \<open>Different increasing index triples give different sets of nodes.\<close>

lemma index_set_inj:
  assumes "distinct ns"
  shows "inj_on (index_set ns) (set (triangle_indices (length ns)))"
proof (rule inj_onI)
  fix s t assume "s \<in> set (triangle_indices (length ns))" "t \<in> set (triangle_indices (length ns))"
    "index_set ns s = index_set ns t"
  moreover obtain i j k where s: "s = (i, j, k)" by (cases s)
  moreover obtain i' j' k' where t: "t = (i', j', k')" by (cases t)
  ultimately have lt: "i < j" "j < k" "k < length ns" "i' < j'" "j' < k'" "k' < length ns"
    and e: "(!) ns ` {i, j, k} = (!) ns ` {i', j', k'}" by (auto simp: set_triangle_indices index_set_def)
  have "inj_on ((!) ns) {0..<length ns}"
    using assms by (intro inj_onI) (simp only: nth_eq_iff_index_eq atLeastLessThan_iff)
  then have "{i, j, k} = {i', j', k'}"
    using e lt by (subst (asm) inj_on_image_eq_iff) auto
  then have "set [i, j, k] = set [i', j', k']" by simp
  then have "[i, j, k] = [i', j', k']" using lt by (intro sorted_distinct_set_unique) simp_all
  then show "s = t" using s t by simp
qed

lemma index_set_clique:
  assumes "distinct ns" "adj_ok adj" "i < j" "j < k" "k < length ns"
  shows "triangle_at adj ns (i, j, k) \<longleftrightarrow> index_set ns (i, j, k) \<in> three_cliques adj"
proof -
  have "ns ! i \<noteq> ns ! j" "ns ! j \<noteq> ns ! k" "ns ! i \<noteq> ns ! k"
    using assms(3-5) by (auto simp: nth_eq_iff_index_eq [OF assms(1)])
  moreover have "is_connected adj a b \<longleftrightarrow> is_connected adj b a" for a b
    using assms(2) by (auto simp: adj_ok_def)
  ultimately show ?thesis by (auto simp: triangle_at_def index_set_def three_cliques_def)
qed

lemma find_triangles_distinct:
  assumes "iterates es adj"
  shows "distinct (map triangle_set (find_triangles es adj))"
  unfolding find_triangles_sets distinct_map
  using index_set_inj [OF iterates_distinct [OF assms]] triangle_indices_distinct
  by (auto intro: inj_on_subset)

lemma find_triangles_cliques:
  assumes "adj_ok adj" and "iterates es adj"
  shows "set (map triangle_set (find_triangles es adj)) = three_cliques adj"
proof -
  let ?ns = "map fst es" and ?I = "set (triangle_indices (length es))"
  have d: "distinct ?ns" and dom: "set ?ns = dom adj"
    using assms(2) by (rule iterates_distinct, rule iterates_keys)
  have "{t \<in> ?I. triangle_at adj ?ns t} = {t \<in> ?I. index_set ?ns t \<in> three_cliques adj}"
    using index_set_clique [OF d assms(1)] by (auto simp: set_triangle_indices)
  then have "set (map triangle_set (find_triangles es adj)) = index_set ?ns ` {t \<in> ?I. index_set ?ns t \<in> three_cliques adj}"
    unfolding find_triangles_sets by simp
  moreover have "\<exists>t \<in> ?I. index_set ?ns t = S" if S: "S \<in> three_cliques adj" for S
  proof -
    obtain a b c where abc: "S = {a, b, c}" "a \<noteq> b" "b \<noteq> c" "a \<noteq> c"
      using S by (auto simp: three_cliques_def card_3_iff)
    then have "is_connected adj a b" "is_connected adj b c" using S by (auto simp: three_cliques_def)
    then have "{a, b, c} \<subseteq> set ?ns" using connected_in_dom [OF assms(1)] dom by auto
    then obtain i j k where "i < j" "j < k" "k < length ?ns" "{?ns ! i, ?ns ! j, ?ns ! k} = S"
      using sorted_triple [OF d _ abc(2-4)] abc(1) by metis
    then show ?thesis by (intro bexI [of _ "(i, j, k)"]) (simp_all add: set_triangle_indices index_set_def)
  qed
  ultimately show ?thesis by fastforce
qed

lemma find_triangles_length:
  assumes "adj_ok adj" and "iterates es adj"
  shows "length (find_triangles es adj) = card (three_cliques adj)"
  using find_triangles_cliques [OF assms] distinct_card [OF find_triangles_distinct [OF assms(2)]] by simp

text \<open>
  C13: \<open>find_triangles\<close>, in whatever order the nodes are iterated, lists every set of three
  pairwise connected nodes exactly once.
\<close>

theorem find_triangles_correct:
  assumes "adj_ok adj" and "iterates es adj"
  shows "distinct (map triangle_set (find_triangles es adj))
    \<and> set (map triangle_set (find_triangles es adj)) = three_cliques adj
    \<and> length (find_triangles es adj) = card (three_cliques adj)"
  using find_triangles_distinct [OF assms(2)] find_triangles_cliques [OF assms] find_triangles_length [OF assms] by simp

text \<open>
  C32: The number the code calls the first Betti number, in whatever order the nodes are iterated:
  undirected edges (loops counting half, rounded down) minus nodes plus three-cliques plus one.
  It is the number of independent cycles of a connected graph, to which every filled triangle
  is added instead of subtracted; the number of components does not enter.
\<close>

theorem betti_number_counts:
  assumes "adj_ok adj" and "iterates es adj"
  shows "betti_number es adj = (if dom adj = {} then 0 else
    int (card (proper_edges adj) + card (loops adj) div 2) - int (card (dom adj)) + int (card (three_cliques adj)) + 1)"
proof -
  have "finite (dom adj)" using assms(1) by (simp add: adj_ok_def)
  then have "0 < length es \<longleftrightarrow> dom adj \<noteq> {}" by (simp add: iterates_length [OF assms(2)] card_gt_0_iff)
  then show ?thesis
    by (simp add: betti_number_def find_triangles_length [OF assms] count_edges_sets [OF assms] iterates_length [OF assms(2)])
qed

section \<open>Connected components\<close>

definition nbr_order :: "(geo_node_id \<Rightarrow> geo_node_id list) \<Rightarrow> adjacency \<Rightarrow> bool" where
  "nbr_order nbrs adj \<longleftrightarrow> (\<forall>n s. adj n = Some s \<longrightarrow> set (nbrs n) = s \<and> distinct (nbrs n))"

definition reachable :: "adjacency \<Rightarrow> geo_node_id \<Rightarrow> geo_node_id set" where
  "reachable adj n = {m. (is_connected adj)\<^sup>*\<^sup>* n m}"

definition closed_nodes :: "adjacency \<Rightarrow> geo_node_id set \<Rightarrow> bool" where
  "closed_nodes adj V \<longleftrightarrow> (\<forall>a \<in> V. \<forall>b. is_connected adj a b \<longrightarrow> b \<in> V)"

lemma nbrs_connected: "nbr_order nbrs adj \<Longrightarrow> n \<in> dom adj \<Longrightarrow> m \<in> set (nbrs n) \<longleftrightarrow> is_connected adj n m"
  by (auto simp: nbr_order_def is_connected_def)

lemma reachable_refl [simp]: "n \<in> reachable adj n"
  by (simp add: reachable_def)

lemma reachable_step: "is_connected adj n m \<Longrightarrow> reachable adj m \<subseteq> reachable adj n"
  by (auto simp: reachable_def intro: converse_rtranclp_into_rtranclp)

lemma closed_reachable: "closed_nodes adj V \<Longrightarrow> n \<in> V \<Longrightarrow> reachable adj n \<subseteq> V"
proof
  fix m assume "closed_nodes adj V" "n \<in> V" "m \<in> reachable adj n"
  then have "(is_connected adj)\<^sup>*\<^sup>* n m" by (simp add: reachable_def)
  then show "m \<in> V"
    by (induction rule: rtranclp_induct) (use \<open>n \<in> V\<close> \<open>closed_nodes adj V\<close> in \<open>auto simp: closed_nodes_def\<close>)
qed

text \<open>
  What one call adds: new nodes reachable from where it starts, without duplicates, and with
  every neighbour of a new node visited.
\<close>

definition extends :: "adjacency \<Rightarrow> geo_node_id set \<Rightarrow> geo_node_id set \<times> geo_node_id list \<Rightarrow>
    geo_node_id set \<times> geo_node_id list \<Rightarrow> bool" where
  "extends adj starts st st' \<longleftrightarrow> (\<exists>new. snd st' = snd st @ new \<and> fst st' = fst st \<union> set new
     \<and> distinct new \<and> set new \<inter> fst st = {} \<and> set new \<subseteq> (\<Union>n \<in> starts. reachable adj n)
     \<and> (\<forall>a \<in> set new. \<forall>b. is_connected adj a b \<longrightarrow> b \<in> fst st') \<and> starts \<subseteq> fst st')"

lemma extends_refl: "starts \<subseteq> fst st \<Longrightarrow> extends adj starts st st"
  by (auto simp: extends_def)

lemma extends_trans:
  assumes "extends adj A st1 st2" "extends adj B st2 st3"
  shows "extends adj (A \<union> B) st1 st3"
proof -
  obtain n1 n2 where
    1: "snd st2 = snd st1 @ n1" "fst st2 = fst st1 \<union> set n1" "distinct n1" "set n1 \<inter> fst st1 = {}"
      "set n1 \<subseteq> (\<Union>n \<in> A. reachable adj n)" "\<forall>a \<in> set n1. \<forall>b. is_connected adj a b \<longrightarrow> b \<in> fst st2" "A \<subseteq> fst st2" and
    2: "snd st3 = snd st2 @ n2" "fst st3 = fst st2 \<union> set n2" "distinct n2" "set n2 \<inter> fst st2 = {}"
      "set n2 \<subseteq> (\<Union>n \<in> B. reachable adj n)" "\<forall>a \<in> set n2. \<forall>b. is_connected adj a b \<longrightarrow> b \<in> fst st3" "B \<subseteq> fst st3"
    using assms unfolding extends_def by blast
  show ?thesis
    unfolding extends_def
    by (rule exI [of _ "n1 @ n2"]) (use 1 2 in \<open>auto simp del: Un_iff | blast\<close>)
qed

lemma extends_visit:
  assumes "n \<notin> visited" "adj n = Some s" "nbr_order nbrs adj"
    and "extends adj (set (nbrs n)) (insert n visited, component @ [n]) st'"
  shows "extends adj {n} (visited, component) st'"
proof -
  have nb: "m \<in> set (nbrs n) \<longleftrightarrow> is_connected adj n m" for m
    using nbrs_connected [OF assms(3)] assms(2) by blast
  obtain new where new: "snd st' = (component @ [n]) @ new" "fst st' = insert n visited \<union> set new" "distinct new"
      "set new \<inter> insert n visited = {}" "set new \<subseteq> (\<Union>m \<in> set (nbrs n). reachable adj m)"
      "\<forall>a \<in> set new. \<forall>b. is_connected adj a b \<longrightarrow> b \<in> fst st'" "set (nbrs n) \<subseteq> fst st'"
    using assms(4) unfolding extends_def by auto
  have "set new \<subseteq> reachable adj n" using new(5) nb reachable_step [of adj n] by blast
  moreover have "\<forall>b. is_connected adj n b \<longrightarrow> b \<in> fst st'" using new(7) nb by blast
  ultimately show ?thesis
    unfolding extends_def by (intro exI [of _ "n # new"]) (use new(1-4,6) assms(1) in auto)
qed

lemma dfs_extends:
  "dfs_collect adj nbrs f n st = Some st' \<Longrightarrow> nbr_order nbrs adj \<Longrightarrow> n \<notin> fst st \<Longrightarrow> extends adj {n} st st'"
  "visit_neighbors adj nbrs f ms st = Some st' \<Longrightarrow> nbr_order nbrs adj \<Longrightarrow> extends adj (set ms) st st'"
proof (induction adj nbrs f n st and adj nbrs f ms st arbitrary: st' and st' rule: dfs_collect_visit_neighbors.induct)
  case (2 adj nbrs f n visited component)
  show ?case
  proof (cases "adj n")
    case None
    then have "\<not> is_connected adj n b" for b by (simp add: is_connected_def)
    with None 2 show ?thesis by (auto simp: extends_def)
  next
    case (Some s)
    then have "extends adj (set (nbrs n)) (insert n visited, component @ [n]) st'"
      using "2.IH" "2.prems"(1,2) by simp
    then show ?thesis using extends_visit "2.prems"(2,3) Some by simp
  qed
next
  case (3 adj nbrs f st)
  then show ?case by (simp add: extends_refl)
next
  case (4 adj nbrs f m ms visited component)
  show ?case
  proof (cases "m \<in> visited")
    case True
    then have "extends adj (set ms) (visited, component) st'" using 4 by simp
    with True extends_trans [OF extends_refl [of "{m}" "(visited, component)"] this] show ?thesis by simp
  next
    case False
    then obtain st1 where st1: "dfs_collect adj nbrs f m (visited, component) = Some st1"
        "visit_neighbors adj nbrs f ms st1 = Some st'"
      using "4.prems"(1) by (auto simp: bind_eq_Some_conv)
    then have "extends adj {m} (visited, component) st1" "extends adj (set ms) st1 st'"
      using "4.IH"(2) "4.IH"(3) "4.prems"(2) False by simp_all
    from extends_trans [OF this] show ?thesis by simp
  qed
qed simp

text \<open>Depth as large as the number of unvisited nodes is enough.\<close>

lemma visited_grows:
  assumes "extends adj A st st'"
  shows "fst st \<subseteq> fst st'"
  using assms by (auto simp: extends_def)

lemma dfs_enough_fuel:
  "adj_ok adj \<Longrightarrow> nbr_order nbrs adj \<Longrightarrow> card (dom adj - fst st) \<le> f \<Longrightarrow> n \<in> dom adj - fst st \<Longrightarrow>
     \<exists>st'. dfs_collect adj nbrs f n st = Some st'"
  "adj_ok adj \<Longrightarrow> nbr_order nbrs adj \<Longrightarrow> card (dom adj - fst st) \<le> f \<Longrightarrow> set ms \<subseteq> dom adj \<Longrightarrow>
     \<exists>st'. visit_neighbors adj nbrs f ms st = Some st'"
proof (induction adj nbrs f n st and adj nbrs f ms st rule: dfs_collect_visit_neighbors.induct)
  case (1 adj nbrs n st)
  then have "card (dom adj - fst st) = 0" "finite (dom adj)" by (simp_all add: adj_ok_def)
  then have "dom adj - fst st = {}" by simp
  then show ?case using "1.prems"(4) by blast
next
  case (2 adj nbrs f n visited component)
  then obtain s where s: "adj n = Some s" by auto
  have fin: "finite (dom adj - visited)" using "2.prems"(1) by (simp add: adj_ok_def)
  have "dom adj - insert n visited = (dom adj - visited) - {n}" by blast
  then have "card (dom adj - insert n visited) < card (dom adj - visited)"
    using fin "2.prems"(4) by (simp only: fst_conv) (rule card_Diff1_less)
  then have "card (dom adj - fst (insert n visited, component @ [n])) \<le> f" using "2.prems"(3) by simp
  moreover have "set (nbrs n) \<subseteq> dom adj" using "2.prems"(1,2) s by (auto simp: nbr_order_def adj_ok_def)
  ultimately show ?case using "2.IH" s "2.prems"(1,2) by simp
next
  case (4 adj nbrs f m ms visited component)
  show ?case
  proof (cases "m \<in> visited")
    case True
    then show ?thesis using 4 by simp
  next
    case False
    then obtain st1 where st1: "dfs_collect adj nbrs f m (visited, component) = Some st1"
      using "4.IH"(2) "4.prems" by auto
    have "extends adj {m} (visited, component) st1"
      using st1 "4.prems"(2) by (rule dfs_extends(1)) (simp add: False)
    then have "visited \<subseteq> fst st1" by (rule visited_grows [of adj "{m}" "(visited, component)" st1, simplified])
    then have "card (dom adj - fst st1) \<le> card (dom adj - visited)"
      using "4.prems"(1) by (intro card_mono) (auto simp: adj_ok_def)
    then have "card (dom adj - fst st1) \<le> f" using "4.prems"(3) by simp
    then have "\<exists>st'. visit_neighbors adj nbrs f ms st1 = Some st'"
      using "4.IH"(3) [OF False] "4.prems"(1,2,4) st1 by simp
    then show ?thesis using st1 False by simp
  qed
qed simp

lemma reachable_sym: "adj_ok adj \<Longrightarrow> m \<in> reachable adj n \<Longrightarrow> n \<in> reachable adj m"
proof -
  assume "adj_ok adj" "m \<in> reachable adj n"
  then have "(is_connected adj)\<inverse>\<inverse> = is_connected adj" "(is_connected adj)\<^sup>*\<^sup>* n m"
    by (auto simp: adj_ok_def reachable_def fun_eq_iff)
  then show "n \<in> reachable adj m"
    by (metis conversepI mem_Collect_eq reachable_def rtranclp_converseI)
qed

lemma reachable_eq:
  assumes "adj_ok adj" "m \<in> reachable adj n"
  shows "reachable adj m = reachable adj n"
proof
  show "reachable adj m \<subseteq> reachable adj n"
    using assms(2) by (auto simp: reachable_def)
  show "reachable adj n \<subseteq> reachable adj m"
    using reachable_sym [OF assms] by (auto simp: reachable_def)
qed

text \<open>Started outside a visited set that is closed, the search collects one component.\<close>

lemma dfs_component:
  assumes "adj_ok adj" "nbr_order nbrs adj" "closed_nodes adj visited" "n \<in> dom adj - visited"
    "card (dom adj) \<le> f"
  shows "\<exists>component. dfs_collect adj nbrs f n (visited, []) = Some (visited \<union> set component, component)
    \<and> distinct component \<and> set component = reachable adj n \<and> set component \<inter> visited = {}
    \<and> closed_nodes adj (visited \<union> set component)"
proof -
  have "card (dom adj - visited) \<le> f"
    using assms(1,5) card_mono [of "dom adj" "dom adj - visited"] by (auto simp: adj_ok_def)
  then obtain st' where st': "dfs_collect adj nbrs f n (visited, []) = Some st'"
    using dfs_enough_fuel(1) [of adj nbrs "(visited, [])" f n] assms by auto
  have "extends adj {n} (visited, []) st'"
    using dfs_extends(1) [OF st' assms(2)] assms(4) by simp
  then obtain new where new: "st' = (visited \<union> set new, new)" "distinct new" "set new \<inter> visited = {}"
      "set new \<subseteq> reachable adj n" "\<forall>a \<in> set new. \<forall>b. is_connected adj a b \<longrightarrow> b \<in> visited \<union> set new" "n \<in> visited \<union> set new"
    by (cases st') (auto simp: extends_def)
  have closed: "closed_nodes adj (visited \<union> set new)"
    using new(5) assms(3) by (auto simp: closed_nodes_def)
  have "reachable adj n \<inter> visited = {}"
    using closed_reachable [OF assms(3)] reachable_sym [OF assms(1)] assms(4) by blast
  then have "reachable adj n \<subseteq> set new"
    using closed_reachable [OF closed new(6)] by blast
  then show ?thesis using st' new closed by blast
qed

lemma partition_loop_correct:
  assumes "adj_ok adj" "nbr_order nbrs adj" "card (dom adj) \<le> f"
  shows "closed_nodes adj visited \<Longrightarrow> set ns \<subseteq> dom adj \<Longrightarrow>
    \<exists>parts. partition_loop adj nbrs f ns visited = Some parts \<and> distinct (concat parts)
      \<and> set (concat parts) \<inter> visited = {} \<and> set ns \<subseteq> visited \<union> set (concat parts)
      \<and> (\<forall>p \<in> set parts. \<exists>n \<in> set ns. set p = reachable adj n)"
proof (induction ns arbitrary: visited)
  case (Cons n ns)
  show ?case
  proof (cases "n \<in> visited")
    case True
    with Cons.IH [of visited] Cons.prems show ?thesis by auto
  next
    case False
    then obtain component where c: "dfs_collect adj nbrs f n (visited, []) = Some (visited \<union> set component, component)"
        "distinct component" "set component = reachable adj n" "set component \<inter> visited = {}"
        "closed_nodes adj (visited \<union> set component)"
      using dfs_component [OF assms(1,2) Cons.prems(1) _ assms(3), of n] Cons.prems(2) by auto
    from Cons.IH [OF c(5)] Cons.prems(2) obtain parts where
      "partition_loop adj nbrs f ns (visited \<union> set component) = Some parts" "distinct (concat parts)"
      "set (concat parts) \<inter> (visited \<union> set component) = {}" "set ns \<subseteq> visited \<union> set component \<union> set (concat parts)"
      "\<forall>p \<in> set parts. \<exists>n \<in> set ns. set p = reachable adj n" by auto
    with c False show ?thesis by (intro exI [of _ "component # parts"]) auto
  qed
qed simp

text \<open>
  C12: \<open>partitions\<close> terminates, within a recursion depth of the number of nodes, and its result
  is the partition of the nodes into connected components: every node is in exactly one list,
  once, and each list holds exactly the nodes reachable from each of its members; for every
  order in which the map and the neighbour sets are iterated.
\<close>

theorem partitions_correct:
  assumes "adj_ok adj" and "iterates es adj" and "nbr_order nbrs adj"
  shows "\<exists>parts. partitions es nbrs adj = Some parts \<and> distinct (concat parts)
    \<and> set (concat parts) = dom adj \<and> (\<forall>p \<in> set parts. p \<noteq> [] \<and> (\<forall>n \<in> set p. set p = reachable adj n))"
proof -
  have keys: "set (map fst es) = dom adj" using assms(2) by (rule iterates_keys)
  have "card (dom adj) \<le> length es" using iterates_length [OF assms(2)] by simp
  moreover have "closed_nodes adj {}" by (simp add: closed_nodes_def)
  ultimately obtain parts where parts: "partitions es nbrs adj = Some parts" "distinct (concat parts)"
      "dom adj \<subseteq> set (concat parts)" "\<forall>p \<in> set parts. \<exists>n \<in> dom adj. set p = reachable adj n"
    using partition_loop_correct [OF assms(1,3), of "length es" "{}" "map fst es"]
    unfolding partitions_def keys by auto
  have closed: "closed_nodes adj (dom adj)"
    using connected_in_dom [OF assms(1)] by (auto simp: closed_nodes_def)
  have all: "\<forall>p \<in> set parts. p \<noteq> [] \<and> set p \<subseteq> dom adj \<and> (\<forall>n \<in> set p. set p = reachable adj n)"
  proof
    fix p assume "p \<in> set parts"
    then obtain n where n: "n \<in> dom adj" "set p = reachable adj n" using parts(4) by blast
    have "p \<noteq> []" using n(2) reachable_refl [of n adj] by (metis empty_iff list.set(1))
    then show "p \<noteq> [] \<and> set p \<subseteq> dom adj \<and> (\<forall>n \<in> set p. set p = reachable adj n)"
      using n closed_reachable [OF closed n(1)] reachable_eq [OF assms(1)] by auto
  qed
  then have "set (concat parts) = dom adj" using parts(3) by fastforce
  with parts(1,2) all show ?thesis by blast
qed

section \<open>A triangle\<close>

definition triangle_of :: "geo_node_id \<Rightarrow> geo_node_id \<Rightarrow> geo_node_id \<Rightarrow> adjacency" where
  "triangle_of a b c = add_edge c a (add_edge b c (add_edge a b simplex_new))"

lemma triangle_of_ok: "adj_ok (triangle_of a b c)"
  by (simp add: triangle_of_def add_edge_ok simplex_new_ok)

lemma connected_triangle_of:
  "is_connected (triangle_of a b c) x y \<longleftrightarrow> {x, y} \<in> {{a, b}, {b, c}, {c, a}}"
  by (auto simp: triangle_of_def doubleton_eq_iff) (simp_all add: simplex_new_def is_connected_def)

lemma dom_triangle_of: "dom (triangle_of a b c) = {a, b, c}"
  by (auto simp: triangle_of_def add_edge_def simplex_new_def)

lemma three_cliques_triangle: "distinct [a, b, c] \<Longrightarrow> three_cliques (triangle_of a b c) = {{a, b, c}}"
proof
  assume d: "distinct [a, b, c]"
  show "three_cliques (triangle_of a b c) \<subseteq> {{a, b, c}}"
  proof
    fix S assume S: "S \<in> three_cliques (triangle_of a b c)"
    then obtain x y z where xyz: "S = {x, y, z}" "x \<noteq> y" "y \<noteq> z" "x \<noteq> z" by (auto simp: three_cliques_def card_3_iff)
    then have "is_connected (triangle_of a b c) x y" "is_connected (triangle_of a b c) y z"
      using S by (auto simp: three_cliques_def)
    then have "{x, y, z} \<subseteq> dom (triangle_of a b c)" using connected_in_dom [OF triangle_of_ok] by blast
    moreover have "card {x, y, z} = card {a, b, c}" using xyz(2-) d by simp
    ultimately show "S \<in> {{a, b, c}}"
      using card_subset_eq [of "{a, b, c}" "{x, y, z}"] xyz(1) by (simp only: dom_triangle_of) simp
  qed
  show "{{a, b, c}} \<subseteq> three_cliques (triangle_of a b c)"
    using d by (auto simp: three_cliques_def connected_triangle_of)
qed

lemma triangle_of_edges:
  assumes "distinct [a, b, c]"
  shows "card (proper_edges (triangle_of a b c)) = 3" "loops (triangle_of a b c) = {}"
proof -
  have "proper_edges (triangle_of a b c) = {{a, b}, {b, c}, {c, a}}"
    using assms by (auto simp: proper_edges_def connected_triangle_of doubleton_eq_iff)
  moreover have "card {{a, b}, {b, c}, {c, a}} = 3" using assms by (auto simp: card_3_iff doubleton_eq_iff)
  ultimately show "card (proper_edges (triangle_of a b c)) = 3" by simp
  show "loops (triangle_of a b c) = {}"
    using assms by (auto simp: loops_def connected_triangle_of doubleton_eq_iff)
qed

text \<open>For a single triangle it is 2, although the face leaves no hole.\<close>

lemma betti_of_triangle:
  assumes "distinct [a, b, c]" and "iterates es (triangle_of a b c)"
  shows "betti_number es (triangle_of a b c) = 2"
proof -
  have "length es = 3" using iterates_length [OF assms(2)] assms(1) by (simp add: dom_triangle_of)
  moreover have "length (find_triangles es (triangle_of a b c)) = 1"
    using find_triangles_length [OF triangle_of_ok assms(2)] by (simp add: three_cliques_triangle [OF assms(1)])
  ultimately show ?thesis
    using count_edges_sets [OF triangle_of_ok assms(2)] triangle_of_edges [OF assms(1)] by (simp add: betti_number_def)
qed

section \<open>A concrete graph\<close>

text \<open>A triangle and an iteration order of it.\<close>

definition triangle_order :: "(geo_node_id \<times> geo_node_id set) list" where
  "triangle_order = (let a = GeoNodeId ''a''; b = GeoNodeId ''b''; c = GeoNodeId ''c'' in
     [(b, {a, c}), (c, {a, b}), (a, {b, c})])"

lemma triangle_iterates:
  "iterates triangle_order (triangle_of (GeoNodeId ''a'') (GeoNodeId ''b'') (GeoNodeId ''c''))"
  by (intro iteratesI ext)
    (auto simp: triangle_order_def triangle_of_def add_edge_def insert_neighbor_def simplex_new_def Let_def)

theorem betti_number_counts_witness:
  "betti_number triangle_order (triangle_of (GeoNodeId ''a'') (GeoNodeId ''b'') (GeoNodeId ''c'')) = 3 - 3 + 1 + 1"
proof -
  have d: "distinct [GeoNodeId ''a'', GeoNodeId ''b'', GeoNodeId ''c'']" by simp
  show ?thesis
    using betti_number_counts [OF triangle_of_ok triangle_iterates] three_cliques_triangle [OF d] triangle_of_edges [OF d]
    by (simp add: dom_triangle_of)
qed

theorem find_triangles_correct_witness:
  "set (map triangle_set (find_triangles triangle_order (triangle_of (GeoNodeId ''a'') (GeoNodeId ''b'') (GeoNodeId ''c''))))
     = {{GeoNodeId ''a'', GeoNodeId ''b'', GeoNodeId ''c''}}"
  using find_triangles_correct [OF triangle_of_ok triangle_iterates] three_cliques_triangle by simp

theorem partitions_correct_witness:
  "let adj = triangle_of (GeoNodeId ''a'') (GeoNodeId ''b'') (GeoNodeId ''c'');
       nbrs = (\<lambda>n. filter (\<lambda>m. is_connected adj n m) [GeoNodeId ''a'', GeoNodeId ''b'', GeoNodeId ''c''])
   in \<exists>parts. partitions triangle_order nbrs adj = Some parts \<and> set (concat parts) = dom adj"
proof -
  let ?adj = "triangle_of (GeoNodeId ''a'') (GeoNodeId ''b'') (GeoNodeId ''c'')"
  let ?nbrs = "\<lambda>n. filter (\<lambda>m. is_connected ?adj n m) [GeoNodeId ''a'', GeoNodeId ''b'', GeoNodeId ''c'']"
  have "nbr_order ?nbrs ?adj"
    unfolding nbr_order_def
  proof (intro allI impI conjI)
    fix n s assume s: "?adj n = Some s"
    have "s \<subseteq> dom ?adj" using triangle_of_ok s unfolding adj_ok_def by blast
    moreover have "is_connected ?adj n m \<longleftrightarrow> m \<in> s" for m using s by (simp add: is_connected_def)
    ultimately show "set (?nbrs n) = s" by (auto simp: dom_triangle_of)
  qed simp
  from partitions_correct [OF triangle_of_ok triangle_iterates this] show ?thesis by (auto simp: Let_def)
qed

end
