(* ===== verification/Warmup.thy ===== *)
theory Warmup
  imports Prelude F64 Simplex
begin

text \<open>
  The geometric warm-up (\<open>kineplex-core/src/geometry.rs\<close>, FT-092). The trait
  \<open>MetricTensorSystem\<close> is implemented outside the file: its two methods are the parameters
  \<open>process\<close> (which may change the system and fail) and \<open>variance_of\<close>. \<open>clock k\<close> is the \<open>k\<close>-th
  reading of \<open>Instant::now()\<close>, in nanoseconds. Proved: the metric history is the window of the
  20 latest variances, the warm-up stops at the first spike after which the ten latest variances
  agree within the threshold, and it also reports convergence when no spike brought it.
\<close>

record synthetic_spike =
  spike_id :: u32
  spike_timestamp :: time
  spike_source :: geo_node_id
  spike_target :: geo_node_id

text \<open>\<open>id + 1\<close> may overflow (\<open>None\<close> is the panic).\<close>

definition spike_new :: "bool \<Rightarrow> u32 \<Rightarrow> time \<Rightarrow> synthetic_spike option" where
  "spike_new checks i now = do {
     j \<leftarrow> add_chk checks i 1;
     Some \<lparr>spike_id = i, spike_timestamp = now, spike_source = GeoNodeId (''node-'' @ show_word (i mod 3)),
       spike_target = GeoNodeId (''node-'' @ show_word (j mod 3))\<rparr>
   }"

record warmup_result =
  spikes_used :: u32
  warmup_time_ms :: u64
  converged :: bool

datatype warmup_error = Timeout u64 | ConvergenceFailed

fun warmup_error_display :: "warmup_error \<Rightarrow> string" where
  "warmup_error_display (Timeout ms) = ''Warm-up excedeu timeout de '' @ show_word ms @ ''ms''"
| "warmup_error_display ConvergenceFailed =
     ''Falha na converg'' @ [CHR 0xC3, CHR 0xAA] @ ''ncia durante warm-up''"

record geometric_warmup =
  num_warmup_spikes :: u32
  convergence_threshold :: f64
  max_warmup_time_ms :: u64
  is_warmed_up :: bool
  warmup_start_time :: "time option"
  metric_history :: "f64 list"

definition warmup_new :: geometric_warmup where
  "warmup_new = \<lparr>num_warmup_spikes = 100, convergence_threshold = flit 0.01, max_warmup_time_ms = 5000,
     is_warmed_up = False, warmup_start_time = None, metric_history = []\<rparr>"

definition with_spikes :: "u32 \<Rightarrow> geometric_warmup \<Rightarrow> geometric_warmup" where
  "with_spikes n w = w\<lparr>num_warmup_spikes := n\<rparr>"

definition with_threshold :: "f64 \<Rightarrow> geometric_warmup \<Rightarrow> geometric_warmup" where
  "with_threshold t w = w\<lparr>convergence_threshold := t\<rparr>"

definition with_timeout :: "u64 \<Rightarrow> geometric_warmup \<Rightarrow> geometric_warmup" where
  "with_timeout ms w = w\<lparr>max_warmup_time_ms := ms\<rparr>"

text \<open>\<open>start.elapsed().as_millis() as u64\<close>; \<open>elapsed\<close> is zero when the clock has not advanced.\<close>

definition elapsed_ms :: "time \<Rightarrow> time \<Rightarrow> u64" where
  "elapsed_ms start now = word_of_int (max 0 (now - start) div 1000000)"

definition elapsed_time_ms :: "time \<Rightarrow> geometric_warmup \<Rightarrow> u64" where
  "elapsed_time_ms now w = (case warmup_start_time w of None \<Rightarrow> 0 | Some start \<Rightarrow> elapsed_ms start now)"

definition is_operational :: "geometric_warmup \<Rightarrow> bool" where
  "is_operational w = is_warmed_up w"

definition check_convergence :: "geometric_warmup \<Rightarrow> bool" where
  "check_convergence w =
     (if length (metric_history w) < 10 then False
      else let recent = drop (length (metric_history w) - 10) (metric_history w);
               mean = f_div (f_sum recent) (f_of_nat (length recent));
               variance = f_div (f_sum (map (\<lambda>x. f_sq (f_sub x mean)) recent)) (f_of_nat (length recent))
           in f_lt variance (convergence_threshold w))"

definition push_metric :: "f64 \<Rightarrow> geometric_warmup \<Rightarrow> geometric_warmup" where
  "push_metric v w =
     (let h = metric_history w @ [v]
      in w\<lparr>metric_history := if 20 < length h then tl h else h\<rparr>)"

text \<open>
  The loop over the spikes: an error, an early return with the result, or \<open>Inr None\<close> when it is
  exhausted; \<open>None\<close> is a panic. Spike \<open>i\<close> is created at reading \<open>i + 1\<close> of the clock.
\<close>

fun warmup_loop ::
  "bool \<Rightarrow> (synthetic_spike \<Rightarrow> 'm \<Rightarrow> 'm \<times> (warmup_error + unit)) \<Rightarrow> ('m \<Rightarrow> f64) \<Rightarrow> (nat \<Rightarrow> time) \<Rightarrow>
   nat list \<Rightarrow> geometric_warmup \<Rightarrow> 'm \<Rightarrow>
   ((geometric_warmup \<times> 'm) \<times> (warmup_error + warmup_result option)) option" where
  "warmup_loop checks process variance_of clock [] w m = Some ((w, m), Inr None)"
| "warmup_loop checks process variance_of clock (i # is) w m = do {
     spike \<leftarrow> spike_new checks (of_nat i) (clock (i + 1));
     case process spike m of
       (m', Inl e) \<Rightarrow> Some ((w, m'), Inl e)
     | (m', Inr _) \<Rightarrow>
         (let w' = push_metric (variance_of m') w in
          if check_convergence w'
          then do {
            used \<leftarrow> add_chk checks (of_nat i) 1;
            Some ((w'\<lparr>is_warmed_up := True\<rparr>, m'), Inr (Some
              \<lparr>spikes_used = used, warmup_time_ms = elapsed_time_ms (clock (i + 2)) w', converged = True\<rparr>))
          }
          else warmup_loop checks process variance_of clock is w' m')
   }"

definition warmup ::
  "bool \<Rightarrow> (synthetic_spike \<Rightarrow> 'm \<Rightarrow> 'm \<times> (warmup_error + unit)) \<Rightarrow> ('m \<Rightarrow> f64) \<Rightarrow> (nat \<Rightarrow> time) \<Rightarrow>
   geometric_warmup \<Rightarrow> 'm \<Rightarrow> ((geometric_warmup \<times> 'm) \<times> (warmup_error + warmup_result)) option" where
  "warmup checks process variance_of clock w m =
     (let n = unat (num_warmup_spikes w);
          w0 = w\<lparr>warmup_start_time := Some (clock 0), metric_history := []\<rparr>
      in case warmup_loop checks process variance_of clock [0..<n] w0 m of
           None \<Rightarrow> None
         | Some (wm, Inl e) \<Rightarrow> Some (wm, Inl e)
         | Some (wm, Inr (Some r)) \<Rightarrow> Some (wm, Inr r)
         | Some ((w1, m1), Inr None) \<Rightarrow>
             (let elapsed = elapsed_time_ms (clock (n + 1)) w1 in
              if max_warmup_time_ms w1 < elapsed then Some ((w1, m1), Inl (Timeout elapsed))
              else Some ((w1\<lparr>is_warmed_up := True\<rparr>, m1), Inr
                \<lparr>spikes_used = num_warmup_spikes w1, warmup_time_ms = elapsed_time_ms (clock (n + 2)) w1,
                 converged = True\<rparr>)))"

section \<open>The metric history\<close>

lemma push_metric_frame [simp]:
  "num_warmup_spikes (push_metric v w) = num_warmup_spikes w"
  "convergence_threshold (push_metric v w) = convergence_threshold w"
  "max_warmup_time_ms (push_metric v w) = max_warmup_time_ms w"
  "is_warmed_up (push_metric v w) = is_warmed_up w"
  "warmup_start_time (push_metric v w) = warmup_start_time w"
  by (simp_all add: push_metric_def Let_def)

interpretation mh: bounded_window push_metric metric_history "\<lambda>_. 20" "\<lambda>w. length (metric_history w) \<le> 20"
proof unfold_locales
  fix w :: geometric_warmup and v assume len: "length (metric_history w) \<le> 20"
  have "length (metric_history w) = 20 \<Longrightarrow> last_n 20 (metric_history w @ [v]) = tl (metric_history w @ [v])"
    by (cases "metric_history w") (simp_all add: last_n_def)
  then show "metric_history (push_metric v w) = last_n 20 (metric_history w @ [v])"
    using len by (cases "length (metric_history w) = 20") (simp_all add: push_metric_def Let_def last_n_all)
qed (simp_all add: push_metric_def Let_def)

text \<open>Whether the warm-up has converged depends on the ten latest variances alone.\<close>

definition settled :: "f64 \<Rightarrow> f64 list \<Rightarrow> bool" where
  "settled threshold vs \<longleftrightarrow> 10 \<le> length vs \<and>
     (let recent = last_n 10 vs; mean = f_div (f_sum recent) (f_of_nat 10)
      in f_lt (f_div (f_sum (map (\<lambda>x. f_sq (f_sub x mean)) recent)) (f_of_nat 10)) threshold)"

lemma last_n_last_n: "m \<le> n \<Longrightarrow> last_n m (last_n n xs) = last_n m xs"
proof -
  assume "m \<le> n"
  then have "length (last_n n xs) - m + (length xs - n) = length xs - m \<or> length xs \<le> n" by simp linarith
  then show ?thesis by (auto simp: last_n_def)
qed

lemma check_convergence_settled:
  assumes "metric_history w = last_n 20 vs"
  shows "check_convergence w \<longleftrightarrow> settled (convergence_threshold w) vs"
proof (cases "length vs < 10")
  case False
  have "drop (length (metric_history w) - 10) (metric_history w) = last_n 10 vs"
    using last_n_last_n [of 10 20 vs] by (simp add: assms last_n_def [of 10 "last_n 20 vs"])
  moreover have "length (last_n 10 vs) = 10" "\<not> length (metric_history w) < 10" using False by (simp_all add: assms)
  ultimately show ?thesis using False by (simp add: check_convergence_def settled_def Let_def)
qed (simp add: check_convergence_def settled_def assms)

section \<open>Runs of the warm-up\<close>

text \<open>
  A run in which every spike is processed: \<open>tr k\<close> is the metric system after \<open>k\<close> spikes. Of the
  system nothing else is assumed.
\<close>

definition spike_at :: "(nat \<Rightarrow> time) \<Rightarrow> nat \<Rightarrow> synthetic_spike" where
  "spike_at clock i = the (spike_new False (of_nat i) (clock (i + 1)))"

definition processes ::
  "(synthetic_spike \<Rightarrow> 'm \<Rightarrow> 'm \<times> (warmup_error + unit)) \<Rightarrow> (nat \<Rightarrow> time) \<Rightarrow> nat \<Rightarrow> (nat \<Rightarrow> 'm) \<Rightarrow> bool" where
  "processes process clock n tr \<longleftrightarrow> (\<forall>i < n. process (spike_at clock i) (tr i) = (tr (Suc i), Inr ()))"

definition variances :: "('m \<Rightarrow> f64) \<Rightarrow> (nat \<Rightarrow> 'm) \<Rightarrow> nat \<Rightarrow> f64 list" where
  "variances variance_of tr k = map (\<lambda>j. variance_of (tr (Suc j))) [0..<k]"

lemma unat_of_nat_32: "i < 2 ^ 32 \<Longrightarrow> unat (of_nat i :: u32) = i"
  by (simp add: unat_of_nat)

lemma inc_of_nat:
  assumes "i + 1 < 2 ^ 32"
  shows "add_chk checks (of_nat i :: u32) 1 = Some (of_nat (i + 1))"
proof -
  have "i < 2 ^ 32" using assms by (rule le_less_trans [rotated]) simp
  then have "unat (of_nat i :: u32) + unat (1 :: u32) = i + 1" by (simp only: unat_of_nat_32 unat_1)
  then have "add_chk checks (of_nat i :: u32) 1 = Some (of_nat i + 1)"
    using assms by (intro add_chk_no_overflow(1)) simp
  then show ?thesis by (simp add: add.commute)
qed

lemma spike_new_in_range:
  assumes "i + 1 < 2 ^ 32"
  shows "spike_new checks (of_nat i) (clock (i + 1)) = Some (spike_at clock i)"
  using inc_of_nat [OF assms] by (simp add: spike_at_def spike_new_def)

lemma variances_Suc: "variances variance_of tr (Suc k) = variances variance_of tr k @ [variance_of (tr (Suc k))]"
  by (simp add: variances_def)

lemma warmup_loop_step:
  assumes "processes process clock n tr" "n < 2 ^ 32" "k < n"
    and h: "metric_history w = last_n 20 (variances variance_of tr k)"
  shows "warmup_loop checks process variance_of clock [k..<n] w (tr k) =
    (let vs = variances variance_of tr (Suc k); w' = w\<lparr>metric_history := last_n 20 vs\<rparr> in
     if settled (convergence_threshold w) vs
     then Some ((w'\<lparr>is_warmed_up := True\<rparr>, tr (Suc k)), Inr (Some
       \<lparr>spikes_used = of_nat (Suc k), warmup_time_ms = elapsed_time_ms (clock (k + 2)) w, converged = True\<rparr>))
     else warmup_loop checks process variance_of clock [Suc k..<n] w' (tr (Suc k)))"
proof -
  let ?w = "push_metric (variance_of (tr (Suc k))) w"
  have k: "k + 1 < 2 ^ 32" using assms(2,3) by linarith
  have "metric_history ?w = last_n 20 (variances variance_of tr (Suc k))"
    using mh.contents_push [of w] by (simp add: h variances_Suc last_n_snoc)
  moreover from this have "?w = w\<lparr>metric_history := last_n 20 (variances variance_of tr (Suc k))\<rparr>"
    by (simp add: push_metric_def Let_def)
  moreover have "process (spike_at clock k) (tr k) = (tr (Suc k), Inr ())"
    using assms(1,3) by (simp add: processes_def)
  ultimately show ?thesis
    using check_convergence_settled [of ?w] spike_new_in_range [OF k, of checks clock] inc_of_nat [OF k, of checks]
    by (simp add: upt_conv_Cons [OF assms(3)] Let_def elapsed_time_ms_def)
qed

lemma warmup_loop_exhausted:
  assumes "processes process clock n tr" "n < 2 ^ 32"
    and "\<forall>j. k < j \<longrightarrow> j \<le> n \<longrightarrow> \<not> settled (convergence_threshold w) (variances variance_of tr j)"
    and "k \<le> n" "metric_history w = last_n 20 (variances variance_of tr k)"
  shows "warmup_loop checks process variance_of clock [k..<n] w (tr k) =
    Some ((w\<lparr>metric_history := last_n 20 (variances variance_of tr n)\<rparr>, tr n), Inr None)"
  using assms(3-)
proof (induction "n - k" arbitrary: k w)
  case 0
  then have "k = n" by simp
  with 0 show ?case by (simp del: of_nat_Suc)
next
  case (Suc x)
  then have "k < n" by linarith
  then show ?case
    using Suc warmup_loop_step [OF assms(1,2), of k w variance_of checks] by (simp add: Let_def)
qed

lemma warmup_loop_converges:
  assumes "processes process clock n tr" "n < 2 ^ 32"
    and "settled (convergence_threshold w) (variances variance_of tr c)" "c \<le> n"
    and "\<forall>j. k < j \<longrightarrow> j < c \<longrightarrow> \<not> settled (convergence_threshold w) (variances variance_of tr j)"
    and "k < c" "metric_history w = last_n 20 (variances variance_of tr k)"
  shows "warmup_loop checks process variance_of clock [k..<n] w (tr k) =
    Some ((w\<lparr>metric_history := last_n 20 (variances variance_of tr c), is_warmed_up := True\<rparr>, tr c), Inr (Some
      \<lparr>spikes_used = of_nat c, warmup_time_ms = elapsed_time_ms (clock (c + 1)) w, converged = True\<rparr>))"
  using assms(3-)
proof (induction "c - k" arbitrary: k w)
  case (Suc x)
  then have "k < n" by linarith
  note step = warmup_loop_step [OF assms(1,2) this Suc.prems(5), of checks]
  show ?case
  proof (cases "c = Suc k")
    case True
    then show ?thesis using Suc.prems(1) by (simp add: step Let_def)
  next
    case False
    with Suc show ?thesis by (simp add: step Let_def elapsed_time_ms_def)
  qed
qed simp

text \<open>
  C22: When every spike is processed, the warm-up succeeds after the first spike at which the ten
  latest variances have settled, whatever the time taken; it then has used that many spikes and
  is operational.
\<close>

theorem warmup_stops_when_settled:
  assumes "processes process clock (unat (num_warmup_spikes w)) tr" and "c \<le> unat (num_warmup_spikes w)"
    and "settled (convergence_threshold w) (variances variance_of tr c)"
    and "\<forall>j < c. \<not> settled (convergence_threshold w) (variances variance_of tr j)"
  shows "\<exists>w' r. warmup checks process variance_of clock w (tr 0) = Some ((w', tr c), Inr r)
    \<and> is_operational w' \<and> metric_history w' = last_n 20 (variances variance_of tr c)
    \<and> unat (spikes_used r) = c \<and> converged r"
proof -
  let ?w0 = "w\<lparr>warmup_start_time := Some (clock 0), metric_history := []\<rparr>"
  have n: "unat (num_warmup_spikes w) < 2 ^ 32" using unat_below [of "num_warmup_spikes w"] by simp
  have c: "0 < c" using assms(3) by (cases c) (simp_all add: settled_def variances_def)
  have "unat (of_nat c :: u32) = c" using assms(2) n by (intro unat_of_nat_32) linarith
  then show ?thesis
    using warmup_loop_converges [OF assms(1) n, of ?w0 variance_of c 0 checks] assms(2-4) c
    by (simp add: warmup_def Let_def is_operational_def variances_def)
qed

text \<open>
  When the variances never settle and the time limit is kept, the warm-up still reports
  convergence and an operational system; past the time limit it reports the timeout, but only
  after the last spike.
\<close>

theorem warmup_exhausted_reports_convergence:
  assumes "processes process clock (unat (num_warmup_spikes w)) tr"
    and "\<forall>j \<le> unat (num_warmup_spikes w). \<not> settled (convergence_threshold w) (variances variance_of tr j)"
  shows "\<exists>w' e. warmup checks process variance_of clock w (tr 0) = Some ((w', tr (unat (num_warmup_spikes w))), e)
    \<and> (let t = elapsed_ms (clock 0) (clock (unat (num_warmup_spikes w) + 1)) in
       if max_warmup_time_ms w < t then e = Inl (Timeout t) \<and> is_operational w' = is_operational w
       else is_operational w' \<and> (\<exists>r. e = Inr r \<and> spikes_used r = num_warmup_spikes w \<and> converged r))"
proof -
  let ?w0 = "w\<lparr>warmup_start_time := Some (clock 0), metric_history := []\<rparr>"
  have n: "unat (num_warmup_spikes w) < 2 ^ 32" using unat_below [of "num_warmup_spikes w"] by simp
  show ?thesis
    using warmup_loop_exhausted [OF assms(1) n, of 0 ?w0 variance_of checks] assms(2)
    by (simp add: warmup_def Let_def is_operational_def variances_def elapsed_time_ms_def)
qed

text \<open>A system whose variance grows with every spike, and one whose variance stays 0.\<close>

lemma variances_const: "variances (\<lambda>_. Fin 0) tr k = replicate k (Fin 0)"
  by (induction k) (simp_all add: variances_def replicate_append_same)

lemma zero_ops:
  "f_add (Fin 0) (Fin 0) = Fin 0" "f_sub (Fin 0) (Fin 0) = Fin 0" "f_sq (Fin 0) = Fin 0" "f_div (Fin 0) (Fin 10) = Fin 0"
  by (simp_all add: f_add_def f_sub_def f_sq_def f_mul_def f_div_def fround_def fzero_def)

lemma f_sum_zeros: "f_sum (replicate k (Fin 0)) = Fin 0"
  unfolding f_sum_def by (induction k) (simp_all add: zero_ops)

lemma settled_zeros: "settled (flit (1 / 100)) (replicate k (Fin 0)) \<longleftrightarrow> 10 \<le> k"
proof -
  have ten: "f_of_nat 10 = Fin 10" using f_of_nat_exact [of 10] by simp
  have "last_n 10 (replicate k (Fin 0)) = replicate 10 (Fin 0)" if "10 \<le> k"
    using that by (simp add: last_n_def)
  moreover have "f_lt (Fin 0) (flit (1 / 100))" by (simp add: flits)
  ultimately show ?thesis
    by (auto simp only: settled_def Let_def length_replicate map_replicate ten zero_ops f_sum_zeros)
qed

theorem warmup_stops_when_settled_witness:
  "\<exists>w' r. warmup True (\<lambda>_ m. (Suc m, Inr ())) (\<lambda>_. Fin 0) (\<lambda>_. 0) warmup_new 0 = Some ((w', 10), Inr r)
    \<and> is_operational w' \<and> unat (spikes_used r) = 10 \<and> converged r"
proof -
  have "processes (\<lambda>_ m. (Suc m, Inr ())) (\<lambda>_. 0) (unat (num_warmup_spikes warmup_new)) (\<lambda>k. k)"
    and "10 \<le> unat (num_warmup_spikes warmup_new)"
    and "settled (convergence_threshold warmup_new) (variances (\<lambda>_. Fin 0) (\<lambda>k. k) 10)"
    and "\<forall>j < 10. \<not> settled (convergence_threshold warmup_new) (variances (\<lambda>_. Fin 0) (\<lambda>k. k) j)"
    by (simp_all only: variances_const) (simp_all add: processes_def warmup_new_def settled_zeros)
  from warmup_stops_when_settled [OF this, of True] show ?thesis by blast
qed

theorem warmup_exhausted_reports_convergence_witness:
  "\<exists>w' r. warmup True (\<lambda>_ m. (Suc m, Inr ())) (\<lambda>_. Fin 0) (\<lambda>_. 0) (with_spikes 5 warmup_new) 0 = Some ((w', 5), Inr r)
    \<and> is_operational w' \<and> converged r"
proof -
  have "processes (\<lambda>_ m. (Suc m, Inr ())) (\<lambda>_. 0) (unat (num_warmup_spikes (with_spikes 5 warmup_new))) (\<lambda>k. k)"
    and "\<forall>j \<le> unat (num_warmup_spikes (with_spikes 5 warmup_new)).
      \<not> settled (convergence_threshold (with_spikes 5 warmup_new)) (variances (\<lambda>_. Fin 0) (\<lambda>k. k) j)"
    by (simp_all only: variances_const) (simp_all add: processes_def warmup_new_def with_spikes_def settled_zeros)
  from warmup_exhausted_reports_convergence [OF this, of True] show ?thesis
    by (auto simp: Let_def elapsed_ms_def with_spikes_def warmup_new_def)
qed

end
