(* ===== verification/Metrics.thy ===== *)
theory Metrics
  imports Prelude F64 "HOL-Library.Char_ord" "HOL-Library.List_Lexorder"
begin

text \<open>
  Metrics and service levels (\<open>kineplex-core/src/metrics.rs\<close>): the metric values, the collector
  with its counters, gauges and recorded metrics, the Prometheus export, and the SLO tracker with
  its latency window. \<open>String\<close> is ordered bytewise, which is the library's lexicographic order
  of lists of characters. Label maps are passed as the order in which they are iterated. Proved:
  a counter holds the number of increments made with its name and set of labels, keys do not depend on
  the iteration order of the labels but collide unless names and labels avoid the separators, the service level indicator lies between 0 and 1, and the p95 is the
  nearest-rank percentile of the window in spite of the rounded product that indexes it.
\<close>

section \<open>Metrics\<close>

datatype metric_value = Counter u64 | Gauge f64 | Histogram f64 | Summary f64 u64

record metric =
  m_name :: string
  m_value :: metric_value
  m_labels :: "string \<rightharpoonup> string"
  m_timestamp_ms :: "64 word"

definition metric_counter :: "64 word \<Rightarrow> string \<Rightarrow> u64 \<Rightarrow> metric" where
  "metric_counter now n v = \<lparr>m_name = n, m_value = Counter v, m_labels = Map.empty, m_timestamp_ms = now\<rparr>"

definition metric_gauge :: "64 word \<Rightarrow> string \<Rightarrow> f64 \<Rightarrow> metric" where
  "metric_gauge now n v = \<lparr>m_name = n, m_value = Gauge v, m_labels = Map.empty, m_timestamp_ms = now\<rparr>"

definition metric_histogram :: "64 word \<Rightarrow> string \<Rightarrow> f64 \<Rightarrow> metric" where
  "metric_histogram now n v = \<lparr>m_name = n, m_value = Histogram v, m_labels = Map.empty, m_timestamp_ms = now\<rparr>"

definition with_label :: "string \<Rightarrow> string \<Rightarrow> metric \<Rightarrow> metric" where
  "with_label k v m = m\<lparr>m_labels := (m_labels m)(k \<mapsto> v)\<rparr>"

section \<open>The collector\<close>

record metrics_collector =
  mc_metrics :: "metric list"
  mc_counters :: "string \<rightharpoonup> u64"
  mc_gauges :: "string \<rightharpoonup> f64"

definition metrics_collector_new :: metrics_collector where
  "metrics_collector_new = \<lparr>mc_metrics = [], mc_counters = Map.empty, mc_gauges = Map.empty\<rparr>"

type_synonym labels = "(string \<times> string) list"

definition make_key :: "string \<Rightarrow> labels option \<Rightarrow> string" where
  "make_key name ls =
     (case ls of
        None \<Rightarrow> name
      | Some l \<Rightarrow> join ''_'' (name # sort (map (\<lambda>(k, v). k @ ''='' @ v) l)))"

text \<open>The increment may overflow (\<open>None\<close> is the panic). The recorded metric has the label
  \<open>total\<close> and not the caller's labels.\<close>

definition inc_counter ::
  "bool \<Rightarrow> 64 word \<Rightarrow> string \<Rightarrow> labels option \<Rightarrow> metrics_collector \<Rightarrow> metrics_collector option" where
  "inc_counter checks now name ls c = do {
     let key = make_key name ls;
     v \<leftarrow> add_chk checks (case mc_counters c key of None \<Rightarrow> 0 | Some v \<Rightarrow> v) 1;
     let counters = (mc_counters c)(key \<mapsto> v);
     let shown = (case counters (make_key name ls) of None \<Rightarrow> 1 | Some v \<Rightarrow> v);
     Some (c\<lparr>mc_counters := counters,
       mc_metrics := mc_metrics c @ [with_label ''total'' ''true'' (metric_counter now name shown)]\<rparr>)
   }"

definition add_labels :: "labels option \<Rightarrow> metric \<Rightarrow> metric" where
  "add_labels ls m = (case ls of None \<Rightarrow> m | Some l \<Rightarrow> fold (\<lambda>(k, v). with_label k v) l m)"

definition set_gauge ::
  "64 word \<Rightarrow> string \<Rightarrow> f64 \<Rightarrow> labels option \<Rightarrow> metrics_collector \<Rightarrow> metrics_collector" where
  "set_gauge now name v ls c =
     c\<lparr>mc_gauges := (mc_gauges c)(make_key name ls \<mapsto> v),
       mc_metrics := mc_metrics c @ [add_labels ls (metric_gauge now name v)]\<rparr>"

definition observe_histogram ::
  "64 word \<Rightarrow> string \<Rightarrow> f64 \<Rightarrow> labels option \<Rightarrow> metrics_collector \<Rightarrow> metrics_collector" where
  "observe_histogram now name v ls c =
     c\<lparr>mc_metrics := mc_metrics c @ [add_labels ls (metric_histogram now name v)]\<rparr>"

text \<open>\<open>cs\<close> and \<open>gs\<close> iterate the counters and the gauges; \<open>fmt\<close> is \<open>Display\<close> of \<open>f64\<close>.\<close>

definition export_prometheus ::
  "(f64 \<Rightarrow> string) \<Rightarrow> (string \<times> u64) list \<Rightarrow> (string \<times> f64) list \<Rightarrow> string" where
  "export_prometheus fmt cs gs =
     concat (map (\<lambda>(k, v). k @ '' '' @ show_word v @ [CHR 0x0A]) cs)
     @ concat (map (\<lambda>(k, v). k @ '' '' @ fmt v @ [CHR 0x0A]) gs)"

definition get_metrics :: "metrics_collector \<Rightarrow> metric list" where
  "get_metrics c = mc_metrics c"

definition clear_metrics :: "metrics_collector \<Rightarrow> metrics_collector" where
  "clear_metrics c = c\<lparr>mc_metrics := []\<rparr>"

record pipeline_metrics =
  stage_latency_ms :: "string \<rightharpoonup> u64"
  stage_rows :: "string \<rightharpoonup> u64"
  stage_errors :: "string \<rightharpoonup> u64"
  stage_bytes :: "string \<rightharpoonup> u64"

section \<open>Service levels\<close>

record slo_config =
  slo_name :: string
  sli_target :: f64
  slo_window :: string
  error_budget_percent :: f64

definition slo_config_new :: "string \<Rightarrow> f64 \<Rightarrow> string \<Rightarrow> slo_config" where
  "slo_config_new n target window =
     \<lparr>slo_name = n, sli_target = target, slo_window = window,
      error_budget_percent = f_mul (f_sub (flit 1) target) (flit 100)\<rparr>"

record slo_tracker =
  slo_cfg :: slo_config
  total_requests :: u64
  successful_requests :: u64
  latency_samples :: "u64 list"

definition slo_tracker_new :: "slo_config \<Rightarrow> slo_tracker" where
  "slo_tracker_new cfg = \<lparr>slo_cfg = cfg, total_requests = 0, successful_requests = 0, latency_samples = []\<rparr>"

definition push_latency :: "u64 \<Rightarrow> slo_tracker \<Rightarrow> slo_tracker" where
  "push_latency l t =
     (let samples = latency_samples t @ [l]
      in t\<lparr>latency_samples := if 1000 < length samples then tl samples else samples\<rparr>)"

definition record_request :: "bool \<Rightarrow> bool \<Rightarrow> u64 \<Rightarrow> slo_tracker \<Rightarrow> slo_tracker option" where
  "record_request checks success latency_ms t = do {
     n \<leftarrow> add_chk checks (total_requests t) 1;
     s \<leftarrow> (if success then add_chk checks (successful_requests t) 1 else Some (successful_requests t));
     Some (push_latency latency_ms (t\<lparr>total_requests := n, successful_requests := s\<rparr>))
   }"

definition current_sli :: "slo_tracker \<Rightarrow> f64" where
  "current_sli t =
     (if total_requests t = 0 then flit 1
      else f_div (f_of_nat (unat (successful_requests t))) (f_of_nat (unat (total_requests t))))"

definition p95_latency :: "slo_tracker \<Rightarrow> u64" where
  "p95_latency t =
     (if latency_samples t = [] then 0
      else let sorted = sort (latency_samples t);
               idx = f_to_usize (f_mul (f_of_nat (length sorted)) (flit 0.95))
           in sorted ! min idx (length sorted - 1))"

definition is_slo_met :: "slo_tracker \<Rightarrow> bool" where
  "is_slo_met t = f_le (sli_target (slo_cfg t)) (current_sli t)"

definition availability_999 :: slo_config where
  "availability_999 = slo_config_new ''availability'' (flit 0.999) ''30d''"

definition latency_p95 :: slo_config where
  "latency_p95 = slo_config_new ''latency_p95'' (flit 0.95) ''5m''"

definition error_rate_1percent :: slo_config where
  "error_rate_1percent = slo_config_new ''error_rate'' (flit 0.01) ''5m''"

section \<open>Counter keys\<close>

lemma sort_cong_mset: "mset xs = mset ys \<Longrightarrow> sort xs = sort ys"
  by (metis mset_sort properties_for_sort sorted_sort)

lemma make_key_order_independent:
  assumes "iterates ls m" "iterates ls' m"
  shows "make_key name (Some ls) = make_key name (Some ls')"
proof -
  have "mset ls = mset ls'"
    using iterates_distinct_entries [OF assms(1)] iterates_distinct_entries [OF assms(2)]
      iterates_same_entries [OF assms] by (simp add: set_eq_iff_mset_eq_distinct)
  then have "mset (map (\<lambda>(k, v). k @ ''='' @ v) ls) = mset (map (\<lambda>(k, v). k @ ''='' @ v) ls')"
    by simp
  from sort_cong_mset [OF this] show ?thesis by (simp only: make_key_def option.case)
qed

text \<open>A labelled counter and an unlabelled one with a longer name share their key.\<close>

lemma make_key_collision: "make_key name (Some [(k, v)]) = make_key (name @ ''_'' @ k @ ''='' @ v) None"
  by (simp add: make_key_def)

fun inc_all :: "bool \<Rightarrow> (64 word \<times> string \<times> labels option) list \<Rightarrow> metrics_collector \<Rightarrow> metrics_collector option" where
  "inc_all checks [] c = Some c"
| "inc_all checks ((now, name, ls) # rs) c = inc_counter checks now name ls c \<bind> inc_all checks rs"

definition counted :: "(64 word \<times> string \<times> labels option) list \<Rightarrow> string \<Rightarrow> nat" where
  "counted rs key = length (filter (\<lambda>(now, name, ls). make_key name ls = key) rs)"

definition counter_value :: "metrics_collector \<Rightarrow> string \<Rightarrow> nat" where
  "counter_value c key = (case mc_counters c key of None \<Rightarrow> 0 | Some v \<Rightarrow> unat v)"

lemma inc_counter_value:
  assumes "counter_value c (make_key name ls) + 1 < 2 ^ 64"
  shows "\<exists>c'. inc_counter checks now name ls c = Some c'
    \<and> (\<forall>key. counter_value c' key = counter_value c key + (if make_key name ls = key then 1 else 0))
    \<and> mc_metrics c' = mc_metrics c @ [with_label ''total'' ''true''
        (metric_counter now name (of_nat (Suc (counter_value c (make_key name ls)))))]"
proof -
  let ?v = "case mc_counters c (make_key name ls) of None \<Rightarrow> 0 | Some v \<Rightarrow> v"
  have v: "unat ?v = counter_value c (make_key name ls)"
    by (simp add: counter_value_def split: option.splits)
  have "?v = of_nat (unat ?v)" by simp
  then have v1: "?v + 1 = of_nat (Suc (counter_value c (make_key name ls)))"
    unfolding v by (metis add.commute of_nat_Suc)
  have lt: "unat ?v + unat (1 :: u64) < 2 ^ LENGTH(64)" using assms unfolding v by simp
  have "add_chk checks ?v 1 = Some (?v + 1)" by (rule add_chk_no_overflow(1) [OF lt])
  moreover have "unat (?v + 1) = counter_value c (make_key name ls) + 1"
    using add_chk_no_overflow(2) [OF lt] v by simp
  ultimately show ?thesis unfolding v1 by (simp add: inc_counter_def Let_def counter_value_def)
qed

lemma counted_snoc:
  "counted (rs @ [(now, name, ls)]) key = counted rs key + (if make_key name ls = key then 1 else 0)"
  by (simp add: counted_def)

lemma counted_le: "counted rs key \<le> length rs"
  unfolding counted_def by (rule length_filter_le)

lemma inc_all_append: "inc_all checks (rs @ rs') c = inc_all checks rs c \<bind> inc_all checks rs'"
  by (induction checks rs c rule: inc_all.induct) (auto split: bind_split)

text \<open>The metric the \<open>i\<close>-th increment records shows the count reached with it.\<close>

definition shown_count :: "(64 word \<times> string \<times> labels option) list \<Rightarrow> nat \<Rightarrow> metric" where
  "shown_count rs i = (case rs ! i of (now, name, ls) \<Rightarrow>
     with_label ''total'' ''true'' (metric_counter now name (of_nat (counted (take (Suc i) rs) (make_key name ls)))))"

lemma inc_all_counts:
  "length rs < 2 ^ 64 \<Longrightarrow>
   \<exists>c. inc_all checks rs metrics_collector_new = Some c \<and> (\<forall>key. counter_value c key = counted rs key)
     \<and> mc_metrics c = map (shown_count rs) [0..<length rs]"
proof (induction rs rule: rev_induct)
  case Nil
  then show ?case by (simp add: counted_def counter_value_def metrics_collector_new_def)
next
  case (snoc r rs)
  obtain now name ls where r: "r = (now, name, ls)" by (cases r)
  obtain c where c: "inc_all checks rs metrics_collector_new = Some c" "\<forall>key. counter_value c key = counted rs key"
      "mc_metrics c = map (shown_count rs) [0..<length rs]" using snoc by auto
  have "counter_value c (make_key name ls) \<le> length rs" using c(2) counted_le by simp
  then have "counter_value c (make_key name ls) + 1 < 2 ^ 64" using snoc.prems by simp
  from inc_counter_value [OF this, of checks now] obtain c' where c': "inc_counter checks now name ls c = Some c'"
      "\<forall>key. counter_value c' key = counter_value c key + (if make_key name ls = key then 1 else 0)"
      "mc_metrics c' = mc_metrics c @ [with_label ''total'' ''true''
        (metric_counter now name (of_nat (Suc (counter_value c (make_key name ls)))))]" by blast
  have "inc_all checks (rs @ [r]) metrics_collector_new = Some c'" using c(1) c'(1) by (simp add: inc_all_append r)
  moreover have "\<forall>key. counter_value c' key = counted (rs @ [r]) key" using c(2) c'(2) by (simp add: r counted_snoc)
  moreover have "map (shown_count (rs @ [r])) [0..<length rs] = map (shown_count rs) [0..<length rs]"
    by (simp add: shown_count_def nth_append)
  then have "mc_metrics c' = map (shown_count (rs @ [r])) [0..<length (rs @ [r])]"
    using c(2,3) c'(3) by (simp add: shown_count_def r counted_snoc add.commute)
  ultimately show ?case by blast
qed

section \<open>Keys without collisions\<close>

text \<open>
  A key determines the name and the set of labels when the name holds no \<open>=\<close>, no label key
  holds \<open>=\<close> or \<open>_\<close> and no label value holds \<open>=\<close>: it is then read back from its right end.
  Without these conditions keys collide (\<open>make_key_collision\<close>).
\<close>

definition label_set :: "labels option \<Rightarrow> (string \<times> string) set" where
  "label_set ls = (case ls of None \<Rightarrow> {} | Some l \<Rightarrow> set l)"

definition clean_labels :: "string \<Rightarrow> labels option \<Rightarrow> bool" where
  "clean_labels name ls \<longleftrightarrow> CHR ''='' \<notin> set name
     \<and> (\<forall>(k, v) \<in> label_set ls. CHR ''='' \<notin> set k \<and> CHR ''_'' \<notin> set k \<and> CHR ''='' \<notin> set v)
     \<and> (case ls of None \<Rightarrow> True | Some l \<Rightarrow> distinct (map fst l))"

definition flat_key :: "string \<Rightarrow> labels \<Rightarrow> string" where
  "flat_key name l = name @ concat (map (\<lambda>(k, v). CHR ''_'' # k @ CHR ''='' # v) l)"

definition sorted_labels :: "labels option \<Rightarrow> labels" where
  "sorted_labels ls = (case ls of None \<Rightarrow> [] | Some l \<Rightarrow> sort_key (\<lambda>(k, v). k @ ''='' @ v) l)"

lemma set_sorted_labels: "set (sorted_labels ls) = label_set ls"
  by (simp add: sorted_labels_def label_set_def split: option.split)

lemma sort_map_key: "sort (map f l) = map f (sort_key f l)"
  by (rule properties_for_sort) (simp_all add: mset_map)

lemma join_underscore: "join ''_'' (s # ss) = s @ concat (map (\<lambda>t. CHR ''_'' # t) ss)"
  by (induction ss arbitrary: s) simp_all

lemma make_key_flat: "make_key name ls = flat_key name (sorted_labels ls)"
  by (cases ls) (simp_all add: make_key_def sort_map_key join_underscore flat_key_def sorted_labels_def
      comp_def case_prod_unfold)

lemma split_at_last:
  assumes "xs @ c # v = xs' @ c # v'" "c \<notin> set v" "c \<notin> set v'"
  shows "xs = xs' \<and> v = v'"
proof -
  have "rev v @ c # rev xs = rev v' @ c # rev xs'" using arg_cong [OF assms(1), of rev] by simp
  then show ?thesis using split_at_separator [of c "rev v" "rev v'"] assms(2,3) by auto
qed

lemma flat_key_simps [simp]:
  "flat_key name [] = name" "flat_key name (l @ [(k, v)]) = flat_key name l @ CHR ''_'' # k @ CHR ''='' # v"
  by (simp_all add: flat_key_def)

lemma flat_key_plain: "CHR ''='' \<notin> set (flat_key name l) \<Longrightarrow> l = []"
  by (cases l rule: rev_cases) (auto simp del: append_assoc)

lemma flat_key_inj:
  assumes "flat_key name l = flat_key name' l'" "CHR ''='' \<notin> set name" "CHR ''='' \<notin> set name'"
    and "\<forall>(k, v) \<in> set l \<union> set l'. CHR ''='' \<notin> set k \<and> CHR ''_'' \<notin> set k \<and> CHR ''='' \<notin> set v"
  shows "name = name' \<and> l = l'"
  using assms(1,4)
proof (induction l arbitrary: l' rule: rev_induct)
  case Nil
  then have "l' = []" using assms(2) flat_key_plain [of name' l'] by simp
  with Nil show ?case by simp
next
  case (snoc p l)
  obtain k v where p: "p = (k, v)" by (cases p)
  show ?case
  proof (cases l' rule: rev_cases)
    case Nil
    then show ?thesis using snoc.prems(1) assms(3) flat_key_plain [of name "l @ [p]"] by simp
  next
    case (snoc m q)
    obtain k' v' where q: "q = (k', v')" by (cases q)
    note l' = snoc [unfolded q]
    have clean: "CHR ''='' \<notin> set v" "CHR ''='' \<notin> set v'" "CHR ''_'' \<notin> set k" "CHR ''_'' \<notin> set k'"
      using snoc.prems(2) unfolding p l' by auto
    have "(flat_key name l @ CHR ''_'' # k) @ CHR ''='' # v = (flat_key name' m @ CHR ''_'' # k') @ CHR ''='' # v'"
      using snoc.prems(1) unfolding p l' by simp
    from split_at_last [OF this clean(1,2)]
    have 1: "flat_key name l @ CHR ''_'' # k = flat_key name' m @ CHR ''_'' # k'" "v = v'" by auto
    from split_at_last [OF 1(1) clean(3,4)] have 2: "flat_key name l = flat_key name' m" "k = k'" by auto
    have "name = name' \<and> l = m"
      by (rule snoc.IH [OF 2(1)]) (use snoc.prems(2) in \<open>auto simp: p l'\<close>)
    then show ?thesis using 1(2) 2(2) by (simp add: p l')
  qed
qed

lemma make_key_eq_iff:
  assumes "clean_labels name ls" "clean_labels name' ls'"
  shows "make_key name ls = make_key name' ls' \<longleftrightarrow> name = name' \<and> label_set ls = label_set ls'"
proof
  assume "make_key name ls = make_key name' ls'"
  then have "name = name' \<and> sorted_labels ls = sorted_labels ls'"
    unfolding make_key_flat by (rule flat_key_inj) (use assms in \<open>auto simp: clean_labels_def set_sorted_labels\<close>)
  then show "name = name' \<and> label_set ls = label_set ls'" using set_sorted_labels by metis
next
  let ?l = "\<lambda>ls. case ls of None \<Rightarrow> [] | Some l \<Rightarrow> l"
  assume eq: "name = name' \<and> label_set ls = label_set ls'"
  have "distinct (?l ls)" "distinct (?l ls')" "set (?l ls) = set (?l ls')"
    using assms eq by (auto simp: clean_labels_def label_set_def distinct_map split: option.splits)
  then have "mset (?l ls) = mset (?l ls')" using set_eq_iff_mset_eq_distinct by blast
  then have "sort (map (\<lambda>(k, v). k @ ''='' @ v) (?l ls)) = sort (map (\<lambda>(k, v). k @ ''='' @ v) (?l ls'))"
    by (intro sort_cong_mset) simp
  moreover have "make_key n (Some l) = join ''_'' (n # sort (map (\<lambda>(k, v). k @ ''='' @ v) l))" for n l
    by (simp add: make_key_def)
  moreover have "make_key n l = make_key n (Some (?l l))" for n l
    by (simp add: make_key_def split: option.split)
  ultimately show "make_key name ls = make_key name' ls'" using eq by presburger
qed

text \<open>The increments made with a name and a set of labels, however the labels were iterated.\<close>

definition increments :: "(64 word \<times> string \<times> labels option) list \<Rightarrow> string \<Rightarrow> labels option \<Rightarrow> nat" where
  "increments rs name ls = length (filter (\<lambda>(now, n, l). n = name \<and> label_set l = label_set ls) rs)"

lemma counted_increments:
  assumes "\<forall>(now, n, l) \<in> set rs. clean_labels n l" "clean_labels name ls"
  shows "counted rs (make_key name ls) = increments rs name ls"
  unfolding counted_def increments_def
  by (intro arg_cong [where f = length] filter_cong) (use assms make_key_eq_iff in auto)

text \<open>
  C21: Counters count their own increments. Take fewer than \<open>2 ^ 64\<close> increments whose names hold no
  \<open>=\<close>, whose label keys are distinct and hold neither \<open>=\<close> nor \<open>_\<close> and whose label values hold no
  \<open>=\<close>. Then none of them panics, the counter of a name and a set of labels is the number of increments made
  with exactly that name and that set of labels, whatever the order in which each caller's labels
  were iterated, and the \<open>i\<close>-th metric recorded carries the time and the name of the \<open>i\<close>-th increment and the
  count its counter had reached with it.
\<close>

theorem counters_count:
  assumes "length rs < 2 ^ 64" and "\<forall>(now, name, ls) \<in> set rs. clean_labels name ls"
  shows "\<exists>c. inc_all checks rs metrics_collector_new = Some c
    \<and> (\<forall>name ls. clean_labels name ls \<longrightarrow> counter_value c (make_key name ls) = increments rs name ls)
    \<and> length (get_metrics c) = length rs
    \<and> (\<forall>i now name ls. i < length rs \<and> rs ! i = (now, name, ls) \<longrightarrow>
        get_metrics c ! i = with_label ''total'' ''true''
          (metric_counter now name (of_nat (increments (take (Suc i) rs) name ls))))"
proof -
  obtain c where c: "inc_all checks rs metrics_collector_new = Some c" "\<forall>key. counter_value c key = counted rs key"
      "mc_metrics c = map (shown_count rs) [0..<length rs]" using inc_all_counts [OF assms(1)] by blast
  have "shown_count rs i = with_label ''total'' ''true''
      (metric_counter now name (of_nat (increments (take (Suc i) rs) name ls)))"
    if i: "i < length rs" "rs ! i = (now, name, ls)" for i now name ls
  proof -
    have "\<forall>(now, n, l) \<in> set (take (Suc i) rs). clean_labels n l" using assms(2) by (auto dest: in_set_takeD)
    moreover have "clean_labels name ls" using assms(2) i nth_mem [OF i(1)] by auto
    ultimately show ?thesis using i counted_increments by (simp add: shown_count_def)
  qed
  with c counted_increments [OF assms(2)] show ?thesis by (auto simp: get_metrics_def)
qed

theorem counters_count_witness:
  "\<exists>c. inc_all True [(0, ''hits'', Some [(''zone'', ''a''), (''dc'', ''b'')]), (1, ''hits'', None),
        (2, ''hits'', Some [(''dc'', ''b''), (''zone'', ''a'')])] metrics_collector_new = Some c
    \<and> counter_value c (make_key ''hits'' (Some [(''dc'', ''b''), (''zone'', ''a'')])) = 2
    \<and> counter_value c (make_key ''hits'' None) = 1"
proof -
  let ?l = "Some [(''dc'', ''b''), (''zone'', ''a'')]"
  let ?rs = "[(0, ''hits'', Some [(''zone'', ''a''), (''dc'', ''b'')]), (1, ''hits'', None),
    (2, ''hits'', ?l)] :: (64 word \<times> string \<times> labels option) list"
  have "increments ?rs ''hits'' ?l = 2" "increments ?rs ''hits'' None = 1" by code_simp+
  moreover have "clean_labels ''hits'' ?l" "clean_labels ''hits'' None" "\<forall>(now, name, ls) \<in> set ?rs. clean_labels name ls"
    by code_simp+
  ultimately show ?thesis using counters_count [of ?rs True] by fastforce
qed

section \<open>The service level indicator\<close>

definition tracker_ok :: "slo_tracker \<Rightarrow> bool" where
  "tracker_ok t \<longleftrightarrow> successful_requests t \<le> total_requests t \<and> length (latency_samples t) \<le> 1000"

lemma push_latency_frame [simp]:
  "total_requests (push_latency l t) = total_requests t"
  "successful_requests (push_latency l t) = successful_requests t" "slo_cfg (push_latency l t) = slo_cfg t"
  by (simp_all add: push_latency_def Let_def)

interpretation sw: bounded_window push_latency latency_samples "\<lambda>_. 1000" "\<lambda>t. length (latency_samples t) \<le> 1000"
proof unfold_locales
  fix t :: slo_tracker and l assume len: "length (latency_samples t) \<le> 1000"
  have "length (latency_samples t) = 1000 \<Longrightarrow> last_n 1000 (latency_samples t @ [l]) = tl (latency_samples t @ [l])"
    by (cases "latency_samples t") (simp_all add: last_n_def)
  then show "latency_samples (push_latency l t) = last_n 1000 (latency_samples t @ [l])"
    using len by (cases "length (latency_samples t) = 1000") (simp_all add: push_latency_def Let_def last_n_all)
qed (simp_all add: push_latency_def Let_def)

lemma record_request_ok:
  assumes "tracker_ok t" "record_request True success l t = Some t'"
  shows "tracker_ok t' \<and> unat (total_requests t') = Suc (unat (total_requests t))
    \<and> unat (successful_requests t') = unat (successful_requests t) + (if success then 1 else 0)
    \<and> latency_samples t' = last_n 1000 (latency_samples t @ [l])"
proof -
  have inc: "unat w' = Suc (unat w)" if "add_chk True w 1 = Some w'" for w w' :: u64
    using that by (auto simp: add_chk_def unat_word_ariths split: if_splits)
  obtain n s where n: "add_chk True (total_requests t) 1 = Some n"
    and s: "(if success then add_chk True (successful_requests t) 1 else Some (successful_requests t)) = Some s"
    and t': "t' = push_latency l (t\<lparr>total_requests := n, successful_requests := s\<rparr>)"
    using assms(2) by (auto simp: record_request_def bind_eq_Some_conv)
  have "unat s = unat (successful_requests t) + (if success then 1 else 0)"
    using s inc by (cases success) auto
  moreover note inc [OF n]
  moreover have "length (latency_samples (t\<lparr>total_requests := n, successful_requests := s\<rparr>)) \<le> 1000"
    using assms(1) by (simp add: tracker_ok_def)
  from sw.contents_push [OF this, of l] have "latency_samples t' = last_n 1000 (latency_samples t @ [l])"
    by (simp add: t')
  ultimately show ?thesis
    using assms(1) by (auto simp: tracker_ok_def t' word_le_nat_alt)
qed

text \<open>
  In every state the tracker can be in, the service level indicator is a number between 0
  and 1: no rounding of the counts or of their quotient leaves the range.
\<close>

theorem sli_in_unit_interval:
  assumes "tracker_ok t"
  shows "f_le (Fin 0) (current_sli t) \<and> f_le (current_sli t) (Fin 1)"
proof (cases "total_requests t = 0")
  case False
  have "unat (successful_requests t) \<le> unat (total_requests t)" using assms by (simp add: tracker_ok_def word_le_nat_alt)
  moreover have "0 < unat (total_requests t)" using False by (simp add: unat_gt_0)
  moreover have "unat (total_requests t) < 2 ^ 64" using unat_below [of "total_requests t"] by simp
  ultimately show ?thesis using count_ratio False by (simp add: current_sli_def)
qed (simp add: current_sli_def flits)

theorem sli_in_unit_interval_witness:
  "let t = (slo_tracker_new latency_p95)\<lparr>total_requests := 3, successful_requests := 2\<rparr> in
   f_le (Fin 0) (current_sli t) \<and> f_le (current_sli t) (Fin 1)"
  unfolding Let_def by (rule sli_in_unit_interval) (simp add: tracker_ok_def slo_tracker_new_def)

section \<open>The 95th percentile\<close>

lemma flit_95: "flit (19 / 20) = Fin (4278419646001971 / 4503599627370496)"
  using fround_eval [of "-1" "19 / 20" "8556839292003942" False] by (simp add: flit_pos power_int_minus)

lemma f_to_usize_finite: "finite_f64 x \<Longrightarrow> f_to_usize x = min (2 ^ 64 - 1) (nat \<lfloor>fval x\<rfloor>)"
  by (cases x) (simp_all add: f_to_usize_def)

text \<open>The double nearest to 0.95 is a little smaller; the product with the length is rounded again.\<close>

definition nearest_95 :: rat where
  "nearest_95 = 4278419646001971 / 4503599627370496"

lemma nearest_95_bounds:
  "nearest_95 < 19 / 20" "19 / 20 - nearest_95 < 9 / 10 / 2 ^ 54" "9 / 10 \<le> nearest_95"
  by (simp_all add: nearest_95_def)

lemma product_95:
  assumes "0 < n" "n \<le> 1000"
  shows "0 < of_nat n * nearest_95" and "of_nat n * nearest_95 \<le> 1000"
    and "ulp_exp (of_nat n * nearest_95) \<le> - 43"
    and "ilog2 (of_nat n * nearest_95) - 53 \<le> ulp_exp (of_nat n * nearest_95) - 1"
proof -
  let ?q = "of_nat n * nearest_95"
  have n: "(1 :: rat) \<le> of_nat n" "(of_nat n :: rat) \<le> 1000" using assms by simp_all
  show q: "0 < ?q" using n(1) nearest_95_bounds(3) by simp
  show q1000: "?q \<le> 1000" using mult_mono [OF n(2), of nearest_95 1] nearest_95_bounds by simp
  have "(2 :: rat) powi (ilog2 ?q) \<le> 1000" using ilog2_bounds [OF q] q1000 by linarith
  also have "(1000 :: rat) < 2 powi 10" by simp
  finally have "ilog2 ?q < 10" by (simp only: powi_less_iff)
  then show "ulp_exp ?q \<le> - 43" "ilog2 ?q - 53 \<le> ulp_exp ?q - 1" using q by (simp_all add: ulp_exp_def)
qed

text \<open>When 20 divides the length, the product rounds up to the exact rank.\<close>

lemma product_95_exact:
  assumes "0 < n" "n \<le> 1000" "n mod 20 = 0"
  shows "round_rat (of_nat n * nearest_95) = of_nat (19 * n div 20)"
proof -
  let ?q = "of_nat n * nearest_95" and ?m = "19 * n div 20"
  note q = product_95 [OF assms(1,2)] and d = nearest_95_bounds
  have n: "(1 :: rat) \<le> of_nat n" using assms(1) by simp
  have m: "of_nat (20 * ?m) = (19 * of_nat n :: rat)"
    using assms(3) by (metis (no_types, opaque_lifting) dvd_mult dvd_mult_div_cancel mod_0_imp_dvd of_nat_mult of_nat_numeral)
  have diff: "of_int (int ?m) - ?q = of_nat n * (19 / 20 - nearest_95)" using m by (simp add: algebra_simps)
  have "0 \<le> of_nat n * (19 / 20 - nearest_95)" using d(1) by simp
  then have "\<bar>?q - of_int (int ?m)\<bar> = of_nat n * (19 / 20 - nearest_95)"
    using diff by (simp only: abs_minus_commute [of ?q] abs_of_nonneg)
  also have "\<dots> < of_nat n * (9 / 10 / 2 ^ 54)" using n d(2) by (intro mult_strict_left_mono) simp_all
  also have "\<dots> \<le> ?q / 2 ^ 54"
    unfolding times_divide_eq_right using n d(3) by (intro divide_right_mono mult_left_mono) simp_all
  also have "\<dots> < 2 powi (ilog2 ?q + 1) / 2 ^ 54"
    using ilog2_bounds [OF q(1)] by (simp only: divide_strict_right_mono zero_less_power zero_less_numeral)
  also have "\<dots> = 2 powi (ilog2 ?q - 53)" using powi_diff [of "ilog2 ?q + 1" 54] by simp
  also have "\<dots> \<le> 2 powi (ulp_exp ?q - 1)" using q(4) by (simp only: powi_le_iff)
  finally have "round_rat ?q = of_int (int ?m)" using round_rat_near_int [OF q(1), of "int ?m"] q(3) by simp
  then show ?thesis by simp
qed

text \<open>Otherwise the exact product is at least a twentieth away from every integer.\<close>

lemma product_95_floor:
  assumes "0 < n" "n \<le> 1000" "n mod 20 \<noteq> 0"
  shows "\<lfloor>round_rat (of_nat n * nearest_95)\<rfloor> = int (19 * n div 20)"
proof -
  let ?q = "of_nat n * nearest_95" and ?m = "19 * n div 20"
  note q = product_95 [OF assms(1,2)] and d = nearest_95_bounds
  have "(19 * n) mod 20 \<noteq> 0"
  proof
    assume "(19 * n) mod 20 = 0"
    then have "20 dvd 20 * n - 19 * n" by (intro dvd_diff_nat dvd_triv_left) (simp add: dvd_eq_mod_eq_0)
    then show False using assms(3) by (simp add: dvd_eq_mod_eq_0)
  qed
  moreover have "20 * ?m + (19 * n) mod 20 = 19 * n" "(19 * n) mod 20 < 20" by simp_all
  ultimately have "20 * ?m + 1 \<le> 19 * n" "19 * n \<le> 20 * ?m + 19" by linarith+
  then have "(of_nat (20 * ?m + 1) :: rat) \<le> of_nat (19 * n)" "(of_nat (19 * n) :: rat) \<le> of_nat (20 * ?m + 19)"
    by (simp_all only: of_nat_le_iff)
  then have b: "of_nat ?m + 1 / 20 \<le> 19 / 20 * (of_nat n :: rat)" "19 / 20 * (of_nat n :: rat) \<le> of_nat ?m + 19 / 20"
    by simp_all
  have "of_nat n * (19 / 20 - nearest_95) \<le> 1000 * (9 / 10 / 2 ^ 54)" using assms(2) d by (intro mult_mono) simp_all
  also have "\<dots> \<le> 1 / 20" by simp
  finally have lo: "of_nat ?m \<le> ?q" using b(1) by (simp add: algebra_simps)
  have up: "?q \<le> of_nat ?m + 19 / 20"
    using b(2) mult_left_mono [OF less_imp_le [OF d(1)], of "of_nat n"] by (simp add: mult.commute)
  have "?m \<le> 2 ^ 53" using assms(2) by simp
  then have "of_nat ?m \<le> round_rat ?q" using round_rat_mono [OF lo] round_rat_nat by metis
  moreover have "2 powi (ulp_exp ?q - 1) \<le> (2 :: rat) powi (- 44)" using q(3) by (simp only: powi_le_iff)
  then have "round_rat ?q - ?q < 1 / 20"
    using round_rat_error [of ?q] power_int_minus [of "2 :: rat" 44] by simp
  then have "round_rat ?q < of_nat ?m + 1" using up by linarith
  ultimately show ?thesis by (simp add: floor_eq_iff)
qed

lemma p95_index:
  assumes "0 < n" "n \<le> 1000"
  shows "f_to_usize (f_mul (f_of_nat n) (flit 0.95)) = 19 * n div 20"
proof -
  let ?q = "of_nat n * nearest_95"
  note q = product_95 [OF assms]
  have "\<bar>round_rat ?q\<bar> \<le> 1000"
    using round_rat_mono [OF q(2)] round_rat_nonneg [of ?q] q(1) round_rat_nat [of 1000] by simp
  moreover have "(1000 :: rat) < 2 ^ 1024" by simp
  ultimately have "\<bar>round_rat ?q\<bar> < 2 ^ 1024" by (rule le_less_trans)
  note fin = fround_finite [OF this, of False]
  have floor: "\<lfloor>round_rat ?q\<rfloor> = int (19 * n div 20)"
    using product_95_exact [OF assms] product_95_floor [OF assms] by (cases "n mod 20 = 0") simp_all
  have "f_of_nat n = Fin (of_nat n)" using assms(2) by (simp add: f_of_nat_exact)
  moreover have "flit 0.95 = Fin nearest_95" by (simp add: flit_95 nearest_95_def)
  ultimately have "f_mul (f_of_nat n) (flit 0.95) = fround False ?q"
    using nearest_95_bounds(3) by (simp add: f_mul_def)
  then show ?thesis using fin floor assms(2) by (simp add: f_to_usize_finite)
qed

lemma sorted_rank:
  assumes "sorted ys" "i < length ys"
  shows "i < length (filter (\<lambda>y. y \<le> ys ! i) ys)" and "length (filter (\<lambda>y. y < ys ! i) ys) \<le> i"
proof -
  have ys: "ys = take (Suc i) ys @ drop (Suc i) ys" "ys = take i ys @ drop i ys" by simp_all
  have "filter (\<lambda>y. y \<le> ys ! i) (take (Suc i) ys) = take (Suc i) ys"
    using assms by (auto simp: filter_id_conv in_set_conv_nth sorted_nth_mono)
  then have "length (take (Suc i) ys) \<le> length (filter (\<lambda>y. y \<le> ys ! i) (take (Suc i) ys @ drop (Suc i) ys))"
    by (simp only: filter_append length_append le_add1)
  then show "i < length (filter (\<lambda>y. y \<le> ys ! i) ys)" using assms(2) by simp
  have "filter (\<lambda>y. y < ys ! i) (drop i ys) = []"
    using assms by (auto simp: filter_empty_conv in_set_conv_nth not_less sorted_nth_mono)
  then have "length (filter (\<lambda>y. y < ys ! i) (take i ys @ drop i ys)) \<le> length (take i ys)"
    by (simp only: filter_append append_Nil2 length_filter_le)
  then show "length (filter (\<lambda>y. y < ys ! i) ys) \<le> i" using assms(2) by simp
qed

lemma length_filter_sort: "length (filter P (sort xs)) = length (filter P xs)"
  by (metis mset_filter mset_sort size_mset)

text \<open>
  C20: The p95 latency is one of the samples of the window, more than 95 percent of them are at
  most it, and at most 95 percent of them are below it.
\<close>

theorem p95_is_percentile:
  assumes "tracker_ok t" and "latency_samples t \<noteq> []"
  shows "p95_latency t \<in> set (latency_samples t)
    \<and> 95 * length (latency_samples t) < 100 * length (filter (\<lambda>x. x \<le> p95_latency t) (latency_samples t))
    \<and> 100 * length (filter (\<lambda>x. x < p95_latency t) (latency_samples t)) \<le> 95 * length (latency_samples t)"
proof -
  let ?xs = "latency_samples t" and ?n = "length (latency_samples t)"
  have n: "0 < ?n" "?n \<le> 1000" using assms by (simp_all add: tracker_ok_def)
  then have i: "19 * ?n div 20 < ?n" by linarith
  have p: "p95_latency t = sort ?xs ! (19 * ?n div 20)"
    using assms(2) i p95_index [OF n] by (simp add: p95_latency_def Let_def min_absorb1)
  have "p95_latency t \<in> set ?xs" using i unfolding p by (metis length_sort nth_mem set_sort)
  moreover have "19 * ?n div 20 < length (filter (\<lambda>x. x \<le> p95_latency t) ?xs)"
    using sorted_rank(1) [OF sorted_sort, of "19 * ?n div 20" ?xs] i by (simp add: p length_filter_sort)
  moreover have "length (filter (\<lambda>x. x < p95_latency t) ?xs) \<le> 19 * ?n div 20"
    using sorted_rank(2) [OF sorted_sort, of "19 * ?n div 20" ?xs] i by (simp add: p length_filter_sort)
  ultimately show ?thesis by linarith
qed

theorem p95_is_percentile_witness:
  "let t = (slo_tracker_new latency_p95)\<lparr>latency_samples := [30, 10, 20]\<rparr> in
   p95_latency t \<in> {10, 20, 30} \<and> 285 < 100 * length (filter (\<lambda>x. x \<le> p95_latency t) [30, 10, 20])"
proof -
  let ?t = "(slo_tracker_new latency_p95)\<lparr>latency_samples := [30, 10, 20]\<rparr>"
  have "tracker_ok ?t" "latency_samples ?t \<noteq> []" by (simp_all add: tracker_ok_def slo_tracker_new_def)
  from p95_is_percentile [OF this] show ?thesis by (auto simp: Let_def)
qed

text \<open>
  The preset named \<open>error_rate_1percent\<close> ("Error rate SLO - 1%") sets the target of the
  success ratio to 0.01, so it is met as soon as one request in a hundred succeeds.
\<close>

theorem error_rate_preset_met:
  assumes "slo_cfg t = error_rate_1percent" and "total_requests t \<noteq> 0" and "unat (total_requests t) \<le> 2 ^ 53"
    and "unat (total_requests t) \<le> 100 * unat (successful_requests t)" and "successful_requests t \<le> total_requests t"
  shows "is_slo_met t"
proof -
  let ?s = "unat (successful_requests t)" and ?n = "unat (total_requests t)"
  have n: "0 < ?n" "?s \<le> ?n" using assms(2,5) by (simp_all add: unat_gt_0 word_le_nat_alt)
  have f: "f_of_nat ?s = Fin (of_nat ?s)" "f_of_nat ?n = Fin (of_nat ?n)"
    using assms(3) n(2) by (intro f_of_nat_exact; linarith)+
  have pos: "(0 :: rat) < of_nat ?n" using n(1) by (simp only: of_nat_0_less_iff)
  have "(of_nat ?n :: rat) \<le> of_nat (100 * ?s)" using assms(4) by (simp only: of_nat_le_iff)
  then have q: "1 / 100 \<le> (of_nat ?s / of_nat ?n :: rat)" using pos by (simp add: field_simps)
  have "current_sli t = fround (fsign (Fin (of_nat ?s)) \<noteq> fsign (Fin (of_nat ?n))) (of_nat ?s / of_nat ?n)"
    using assms(2) pos by (simp add: current_sli_def f f_div_def Let_def)
  moreover have "sli_target (slo_cfg t) = fround False (1 / 100)"
    by (simp add: assms(1) error_rate_1percent_def slo_config_new_def flit_pos)
  ultimately show ?thesis unfolding is_slo_met_def by (simp only: fround_mono [OF q])
qed

theorem error_rate_preset_met_witness:
  "is_slo_met ((slo_tracker_new error_rate_1percent)\<lparr>total_requests := 100, successful_requests := 1\<rparr>)"
  by (rule error_rate_preset_met) (simp_all add: slo_tracker_new_def)

end
