(* ===== verification/TestsGeometry.thy ===== *)
theory TestsGeometry
  imports StepControl Normalizer Simplex Warmup Metrics
begin

text \<open>
  The unit tests of \<open>kineplex-core/src/geometry.rs\<close> and \<open>metrics.rs\<close> replayed on the model, in
  exact IEEE double arithmetic. Hash maps are iterated in an order \<open>es\<close>, any one where the
  assertion is about the result, a fixed one for the components.
\<close>

section \<open>Step controller\<close>

definition controller_tests :: bool where
  "controller_tests \<longleftrightarrow>
     (case compute_run [flit 0.1, flit 0, flit (- 0.1)] (step_controller_new (flit 0.5)) of
        None \<Rightarrow> False | Some (c, _) \<Rightarrow> f_lt (flit 0) (epsilon c))
     \<and> (case compute_run (replicate 100 (flit 10)) (with_limits (flit 0.01) (flit 1) (step_controller_new (flit 0.5))) of
        None \<Rightarrow> False | Some (c, _) \<Rightarrow> f_le (flit 0.01) (epsilon c) \<and> f_le (epsilon c) (flit 1))
     \<and> (case history_pushes [flit 0.5, flit 0.6, flit 0.5, flit 0.6] (epsilon_history_new 10) of
        None \<Rightarrow> False | Some h \<Rightarrow> has_oscillation h)"

definition history_test :: bool where
  "history_test \<longleftrightarrow>
     (let h = epsilon_history_new 2 in
      variance h = flit 0 \<and> \<not> has_oscillation h
      \<and> (case history_pushes [flit 1] h of
           None \<Rightarrow> False
         | Some h1 \<Rightarrow> variance h1 = flit 0
             \<and> (case history_pushes [flit 2, flit 3] h1 of None \<Rightarrow> False | Some h2 \<Rightarrow> length (eh_samples h2) = 2)))"

lemma compute_run_ok:
  assumes "controller_ok c" "\<forall>x \<in> set xs. mag_le 999 x"
  shows "\<exists>c' es. compute_run xs c = Some (c', es) \<and> controller_ok c' \<and> epsilon_min c' = epsilon_min c
    \<and> epsilon_max c' = epsilon_max c \<and> (xs \<noteq> [] \<longrightarrow> f_le (epsilon_min c) (epsilon c') \<and> f_le (epsilon c') (epsilon_max c))"
  using assms
proof (induction xs arbitrary: c)
  case (Cons x xs)
  have "f_le (epsilon_min c) (epsilon_max c)" using Cons.prems(1) by (simp add: controller_ok_def)
  then obtain c1 e where s: "compute x c = Some (c1, e)" using compute_total by blast
  then have c1: "controller_ok c1 \<and> epsilon c1 = e \<and> epsilon_min c1 = epsilon_min c \<and> epsilon_max c1 = epsilon_max c
      \<and> f_le (epsilon_min c) e \<and> f_le e (epsilon_max c)"
    using compute_ok [OF Cons.prems(1) _ s] Cons.prems(2) by simp
  then obtain c' es where "compute_run xs c1 = Some (c', es)" "controller_ok c'" "epsilon_min c' = epsilon_min c1"
      "epsilon_max c' = epsilon_max c1" "xs \<noteq> [] \<longrightarrow> f_le (epsilon_min c1) (epsilon c') \<and> f_le (epsilon c') (epsilon_max c1)"
    using Cons.IH [of c1] Cons.prems(2) by auto
  then show ?case using s c1 by (cases "xs = []") auto
qed simp

text \<open>More literals of the tests.\<close>

lemma small_ints:
  "0 < n \<Longrightarrow> n \<le> 2 ^ 53 \<Longrightarrow> fround s (of_nat n) = Fin (of_nat n)"
  by (intro fround_exact [of _ "int n" 0]) simp_all

lemma test_literals:
  "flit 10 = Fin 10" "flit 25 = Fin 25" "flit (3/5) = Fin (5404319552844595 / 9007199254740992)" "flit (- 1) = Fin (- 1)"
  "flit (1/20) = Fin (3602879701896397 / 72057594037927936)"
  using small_ints [of 10 False] small_ints [of 25 False] fround_eval [of "-1" "3/5" "5404319552844595" False]
    fround_eval [of "-5" "1/20" "7205759403792794" False] flits(6)
  by (simp_all add: flit_pos flit_neg power_int_minus)

lemma turns_zigzag:
  assumes "f_lt a b" "\<not> f_lt b a"
  shows "turns [a, b, a, b] = 2"
proof -
  have "[2..<length [a, b, a, b]] = [2, 3]" by (simp add: upt_rec)
  then show ?thesis using assms by (simp add: turns_def Let_def)
qed

lemma controller_tests_pass: "controller_tests"
  unfolding controller_tests_def
proof (intro conjI)
  have half: "moderate (flit 0.5)" by (simp add: flits small_moderate)
  have "flit 0.1 = Fin (3602879701896397 / 36028797018963968)" using flits(2) by simp
  then have "\<forall>x \<in> set [flit 0.1, flit 0, flit (- 0.1)]. mag_le 999 x"
    by (simp add: flit_neg mag_le_def)
  from compute_run_ok [OF controller_new_ok [OF half] this]
  show "case compute_run [flit 0.1, flit 0, flit (- 0.1)] (step_controller_new (flit 0.5)) of
      None \<Rightarrow> False | Some (c, _) \<Rightarrow> f_lt (flit 0) (epsilon c)"
    by (auto simp: step_controller_new_def flits f_lt_def f_le_def)
  let ?c = "with_limits (flit 0.01) (flit 1) (step_controller_new (flit 0.5))"
  have "controller_ok ?c" by (intro with_limits_ok controller_new_ok half) (simp_all add: flits small_moderate)
  moreover have "\<forall>x \<in> set (replicate 100 (flit 10)). mag_le 999 x" by (simp add: test_literals mag_le_def)
  ultimately show "case compute_run (replicate 100 (flit 10)) ?c of
      None \<Rightarrow> False | Some (c, _) \<Rightarrow> f_le (flit 0.01) (epsilon c) \<and> f_le (epsilon c) (flit 1)"
    using compute_run_ok [of ?c "replicate 100 (flit 10)"] by (auto simp: with_limits_def)
  let ?a = "flit 0.5" and ?b = "flit 0.6"
  have h: "history_pushes [?a, ?b, ?a, ?b] (epsilon_history_new 10) = Some \<lparr>eh_samples = [?a, ?b, ?a, ?b], eh_max_samples = 10\<rparr>"
    by (simp add: epsilon_history_new_def history_push_def)
  have ab: "f_lt ?a ?b" "\<not> f_lt ?b ?a" by (simp_all add: flits test_literals)
  have "f_lt (flit 0.3) (f_div (f_of_nat 2) (f_of_nat 2))" using ratio_above_3_10 [of 2 2] by simp
  then show "case history_pushes [?a, ?b, ?a, ?b] (epsilon_history_new 10) of None \<Rightarrow> False | Some h \<Rightarrow> has_oscillation h"
    using turns_zigzag [OF ab] unfolding h by (simp add: has_oscillation_def eval_nat_numeral)
qed

lemma history_test_pass: "history_test"
  by (simp add: history_test_def Let_def epsilon_history_new_def history_push_def variance_def has_oscillation_def)

section \<open>The configured controller, in exact arithmetic\<close>

definition configured_controller_test :: bool where
  "configured_controller_test \<longleftrightarrow>
     (let c = with_limits (flit 0.1) (flit 0.9) (with_pid_gains (flit 0.1) (flit 0.01) (flit 0.2) (step_controller_new (flit 0.5)))
      in is_stable c
       \<and> (case compute (flit 0.1) c of None \<Rightarrow> False | Some (c1, _) \<Rightarrow>
            let r = step_reset c1 in
            \<not> is_stable c1 \<and> is_stable r \<and> f_lt (epsilon r) (flit 0.5)
            \<and> (case compute (flit (- 100)) r of None \<Rightarrow> False | Some (c2, _) \<Rightarrow>
                 epsilon c2 = flit 0.9
                 \<and> (case compute (flit 100) c2 of None \<Rightarrow> False | Some (c3, _) \<Rightarrow> epsilon c3 = flit 0.1))))"

text \<open>The operations of the three steps, each rounded to the nearest double.\<close>

lemma first_step:
  "f_sub (Fin 0) (Fin (3602879701896397 / 36028797018963968)) = Fin (- (3602879701896397 / 36028797018963968))"
  "f_mul (Fin (3602879701896397 / 36028797018963968)) (Fin (- (3602879701896397 / 36028797018963968))) = Fin (- (1441151880758559 / 144115188075855872))"
  "f_add (Fin 0) (Fin (- (3602879701896397 / 36028797018963968))) = Fin (- (3602879701896397 / 36028797018963968))"
  "f_mul (Fin (5764607523034235 / 576460752303423488)) (Fin (- (3602879701896397 / 36028797018963968))) = Fin (- (1152921504606847 / 1152921504606846976))"
  "f_sub (Fin (- (3602879701896397 / 36028797018963968))) (Fin 0) = Fin (- (3602879701896397 / 36028797018963968))"
  "f_mul (Fin (3602879701896397 / 18014398509481984)) (Fin (- (3602879701896397 / 36028797018963968))) = Fin (- (1441151880758559 / 72057594037927936))"
  "f_add (Fin (1 / 2)) (Fin (- (1441151880758559 / 144115188075855872))) = Fin (2206763817411543 / 4503599627370496)"
  "f_add (Fin (2206763817411543 / 4503599627370496)) (Fin (- (1152921504606847 / 1152921504606846976))) = Fin (4404520435568345 / 9007199254740992)"
  "f_add (Fin (4404520435568345 / 9007199254740992)) (Fin (- (1441151880758559 / 72057594037927936))) = Fin (4224376450473525 / 9007199254740992)"
  using fround_eval(2) [of "-4" "3602879701896397 / 36028797018963968" 7205759403792794]
    fround_eval(2) [of "-7" "12980742146337070512478121581609 / 1298074214633706907132624082305024" 5764607523034236]
    fround_eval(2) [of "-10" "20769187434139312099389054151295 / 20769187434139310514121985316880384" 4611686018427388]
    fround_eval(2) [of "-6" "12980742146337070512478121581609 / 649037107316853453566312041152512" 5764607523034236]
    fround_eval [of "-2" "70616442157169377 / 144115188075855872" 8827055269646172]
    fround_eval [of "-2" "563778615752748161 / 1152921504606846976" 8809040871136690]
    fround_eval [of "-2" "33795011603788201 / 72057594037927936" 8448752900947050]
  by (simp_all add: f_mul_finite f_sub_def f_add_finite power_int_minus fround_def [of _ 0] fzero_def)

lemma tie: "rne (17715472084215267 / 2) = 8857736042107634"
  using floor_divide_of_int_eq [of 17715472084215267 2, where ?'a = rat] by (simp add: rne_def Let_def)

lemma second_step:
  "f_sub (Fin 0) (Fin (- 100)) = Fin 100"
  "f_mul (Fin (3602879701896397 / 36028797018963968)) (Fin 100) = Fin 10"
  "f_add (Fin 0) (Fin 100) = Fin 100"
  "f_mul (Fin (5764607523034235 / 576460752303423488)) (Fin 100) = Fin 1"
  "f_sub (Fin 100) (Fin 0) = Fin 100"
  "f_mul (Fin (3602879701896397 / 18014398509481984)) (Fin 100) = Fin 20"
  "f_add (Fin (4224376450473525 / 9007199254740992)) (Fin 10) = Fin (5893523062367715 / 562949953421312)"
  "f_add (Fin (5893523062367715 / 562949953421312)) (Fin 1) = Fin (6456473015789027 / 562949953421312)"
  "f_add (Fin (6456473015789027 / 562949953421312)) (Fin 20) = Fin (4428868021053817 / 140737488355328)"
  using fround_eval [of 6 100 7036874417766400]
    fround_eval [of 3 "90071992547409925 / 9007199254740992" 5629499534213120]
    fround_eval [of 0 "144115188075855875 / 144115188075855872" 4503599627370496]
    fround_eval [of 4 "90071992547409925 / 4503599627370496" 5629499534213120]
    fround_eval [of 3 "94296368997883445 / 9007199254740992" 5893523062367715]
    fround_eval [of 3 "6456473015789027 / 562949953421312" 6456473015789027]
    fround_rne(1) [of 4 "17715472084215267 / 562949953421312" 8857736042107634]
  by (simp_all add: f_mul_finite f_sub_def f_add_finite power_int_minus fround_def [of _ 0] fzero_def tie)

lemma third_step:
  "f_sub (Fin 0) (Fin 100) = Fin (- 100)"
  "f_mul (Fin (3602879701896397 / 36028797018963968)) (Fin (- 100)) = Fin (- 10)"
  "f_add (Fin 100) (Fin (- 100)) = Fin 0"
  "f_mul (Fin (5764607523034235 / 576460752303423488)) (Fin 0) = Fin 0"
  "f_sub (Fin (- 100)) (Fin 100) = Fin (- 200)"
  "f_mul (Fin (3602879701896397 / 18014398509481984)) (Fin (- 200)) = Fin (- 40)"
  "f_add (Fin (8106479329266893 / 9007199254740992)) (Fin (- 10)) = Fin (- (5122844576133939 / 562949953421312))"
  "f_add (Fin (- (5122844576133939 / 562949953421312))) (Fin 0) = Fin (- (5122844576133939 / 562949953421312))"
  "f_add (Fin (- (5122844576133939 / 562949953421312))) (Fin (- 40)) = Fin (- (6910210678246605 / 140737488355328))"
  using fround_eval(2) [of 6 100 7036874417766400]
    fround_eval(2) [of 3 "90071992547409925 / 9007199254740992" 5629499534213120]
    fround_eval(2) [of 7 200 7036874417766400]
    fround_eval(2) [of 5 "90071992547409925 / 2251799813685248" 5629499534213120]
    fround_eval(2) [of 3 "81965513218143027 / 9007199254740992" 5122844576133939]
    fround_eval(2) [of 3 "5122844576133939 / 562949953421312" 5122844576133939]
    fround_eval(2) [of 5 "27640842712986419 / 562949953421312" 6910210678246605]
  by (simp_all add: f_mul_finite f_sub_def f_add_finite power_int_minus fround_def [of _ 0] fzero_def)

lemma fifth_and_nine_tenths:
  "flit (1/5) = Fin (3602879701896397 / 18014398509481984)" "flit (9/10) = Fin (8106479329266893 / 9007199254740992)"
  using fround_eval [of "-3" "1/5" 7205759403792794 False] fround_eval [of "-1" "9/10" 8106479329266893 False]
  by (simp_all add: flit_pos power_int_minus)

lemma configured_controller_test_pass: "configured_controller_test"
  by (simp add: configured_controller_test_def compute_def with_limits_def with_pid_gains_def step_controller_new_def
      is_stable_def step_reset_def flits fifth_and_nine_tenths f_clamp_def first_step second_step third_step Let_def flit_neg)

section \<open>Normaliser\<close>

definition normalizer_tests :: bool where
  "normalizer_tests \<longleftrightarrow>
     (case normalize [flit 25, flit 25, flit 25, flit 25] (normalizer_new (flit 100)) of
        (_, Inl _) \<Rightarrow> False | (ws, Inr _) \<Rightarrow> f_lt (f_abs (f_sub (f_sum ws) (flit 100))) (flit 0.001))
     \<and> snd (normalize [flit 0, flit 0, flit 0] (normalizer_new (flit 100))) = Inl ZeroVolume
     \<and> (case normalize_with_clamp [flit (10 ^ 20), flit (10 ^ 30), flit (10 ^ 40)] (normalizer_new (flit 1)) of
        None \<Rightarrow> False | Some (_, m) \<Rightarrow> f_le m f_u32_max)
     \<and> is_volume_stable [flit 100, flit 0, flit 0] (with_tolerance (flit 0.01) (normalizer_new (flit 100)))"

definition normalizer_limits_test :: "(f64 \<Rightarrow> string) \<Rightarrow> bool" where
  "normalizer_limits_test fmt \<longleftrightarrow>
     (case snd (normalize [flit 1] (normalizer_new (f_mul f_u32_max (flit 2)))) of Inl (WeightOverflow _) \<Rightarrow> True | _ \<Rightarrow> False)
     \<and> (case snd (normalize [flit 1] (normalizer_new (Fin (1 / 2 ^ 1022)))) of Inl (WeightUnderflow _) \<Rightarrow> True | _ \<Rightarrow> False)
     \<and> map_option snd (normalize_with_clamp [flit 0] (normalizer_new (flit 1))) = Some (flit 0)
     \<and> is_within_bounds [flit 0, flit 1] \<and> \<not> is_within_bounds [flit (- 1)]
     \<and> contains (normalization_error_display fmt (WeightOverflow (flit 2))) ''Overflow''
     \<and> contains (normalization_error_display fmt (WeightUnderflow (flit 0))) ''Underflow''"

text \<open>Sums and quotients of small integers are exact.\<close>

lemma add_ints: "0 < a + b \<Longrightarrow> a + b \<le> 2 ^ 53 \<Longrightarrow> f_add (Fin (of_nat a)) (Fin (of_nat b)) = Fin (of_nat (a + b))"
  using small_ints [of "a + b"] by (simp add: f_add_finite)

lemma integer_sums:
  "f_sum [Fin 25, Fin 25, Fin 25, Fin 25] = Fin 100" "f_sum [Fin 100, Fin 0, Fin 0] = Fin 100" "f_sum [Fin 1] = Fin 1"
  "f_sum [Fin 0, Fin 0, Fin 0] = Fin 0" "f_sum [Fin 0] = Fin 0"
  using add_ints [of 0 25] add_ints [of 25 25] add_ints [of 50 25] add_ints [of 75 25] add_ints [of 0 100] add_ints [of 100 0]
    add_ints [of 0 1] zero_ops by (simp_all add: f_sum_def)

lemma integer_quotients:
  "f_div (Fin 100) (Fin 100) = Fin 1" "f_mul (Fin 25) (Fin 1) = Fin 25" "f_sub (Fin 100) (Fin 100) = Fin 0"
  "f_div (Fin 0) (Fin 100) = Fin 0"
  using small_ints [of 1 False] small_ints [of 25 False]
  by (simp_all add: f_div_def f_mul_def f_sub_def f_add_def fround_def [of _ 0] fzero_def)

lemma not_small: "1 \<le> q \<Longrightarrow> \<not> f_lt (Fin q) f_epsilon"
  by (simp add: f_epsilon_def)

lemma u32_max_f: "f_of_nat (unat (- 1 :: u32)) = f_u32_max"
  by (simp add: f_of_nat_exact f_u32_max_def unsigned_minus_1_eq_mask mask_eq_exp_minus_1)

lemma normalizer_tests_pass: "normalizer_tests"
  unfolding normalizer_tests_def
proof (intro conjI)
  have "normalize [Fin 25, Fin 25, Fin 25, Fin 25] (normalizer_new (Fin 100)) = ([Fin 25, Fin 25, Fin 25, Fin 25], Inr ())"
    by (simp add: normalize_def normalizer_new_def Let_def integer_sums integer_quotients not_small)
      (simp add: f_u32_max_def f_epsilon_def)
  then show "case normalize [flit 25, flit 25, flit 25, flit 25] (normalizer_new (flit 100)) of
      (_, Inl _) \<Rightarrow> False | (ws, Inr _) \<Rightarrow> f_lt (f_abs (f_sub (f_sum ws) (flit 100))) (flit 0.001)"
    by (simp add: test_literals flits integer_sums integer_quotients)
  show "snd (normalize [flit 0, flit 0, flit 0] (normalizer_new (flit 100))) = Inl ZeroVolume"
    by (simp add: normalize_def integer_sums Let_def f_epsilon_def)
  have hi: "f_le (Fin 0) f_u32_max" by (simp add: f_u32_max_def)
  show "case normalize_with_clamp [flit (10 ^ 20), flit (10 ^ 30), flit (10 ^ 40)] (normalizer_new (flit 1)) of
      None \<Rightarrow> False | Some (_, m) \<Rightarrow> f_le m f_u32_max"
    using clamp_weights_result [OF hi f_le_refl hi, of "f_div (flit 1) (f_sum [flit (10 ^ 20), flit (10 ^ 30), flit (10 ^ 40)])"
        "[flit (10 ^ 20), flit (10 ^ 30), flit (10 ^ 40)]"] hi
    unfolding normalize_with_clamp_def Let_def normalizer_new_def normalizer.simps u32_max_f flit_0 by auto
  show "is_volume_stable [flit 100, flit 0, flit 0] (with_tolerance (flit 0.01) (normalizer_new (flit 100)))"
    by (simp add: is_volume_stable_def current_volume_def with_tolerance_def normalizer_new_def flits integer_sums
        integer_quotients)
qed

lemma normalizer_limits_test_pass: "normalizer_limits_test fmt"
  unfolding normalizer_limits_test_def
proof (intro conjI)
  let ?big = "Fin (2 * (2 ^ 32 - 1))" and ?tiny = "Fin (1 / 2 ^ 1022)"
  have t: "f_mul f_u32_max (flit 2) = ?big"
    using fround_exact [of "2 * (2 ^ 32 - 1)" "2 * (2 ^ 32 - 1)" 0 False] by (simp add: f_u32_max_def flits f_mul_finite)
  have "f_div ?big (Fin 1) = ?big" "f_mul (Fin 1) ?big = ?big"
    using fround_exact [of "2 * (2 ^ 32 - 1)" "2 * (2 ^ 32 - 1)" 0 False] by (simp_all add: f_div_def f_mul_finite)
  then show "case snd (normalize [flit 1] (normalizer_new (f_mul f_u32_max (flit 2)))) of Inl (WeightOverflow _) \<Rightarrow> True | _ \<Rightarrow> False"
    unfolding t by (simp add: normalize_def normalizer_new_def flits integer_sums not_small Let_def) (simp add: f_u32_max_def)
  have "f_div ?tiny (Fin 1) = ?tiny" "f_mul (Fin 1) ?tiny = ?tiny"
    using fround_exact [of "1 / 2 ^ 1022" 1 "- 1022" False] by (simp_all add: f_div_def f_mul_finite powi_neg [of 1022, simplified])
  then show "case snd (normalize [flit 1] (normalizer_new ?tiny)) of Inl (WeightUnderflow _) \<Rightarrow> True | _ \<Rightarrow> False"
    by (simp add: normalize_def normalizer_new_def flits integer_sums not_small Let_def)
      (simp add: f_u32_max_def f_epsilon_def)
  show "map_option snd (normalize_with_clamp [flit 0] (normalizer_new (flit 1))) = Some (flit 0)"
    by (simp add: normalize_with_clamp_def integer_sums f_epsilon_def Let_def)
  show "is_within_bounds [flit 0, flit 1]" "\<not> is_within_bounds [flit (- 1)]"
    by (simp_all add: is_within_bounds_def flits test_literals f_u32_max_def)
qed simp_all

section \<open>Two-simplices\<close>

definition node_of :: "string \<Rightarrow> geo_node_id" where
  "node_of = GeoNodeId"

definition abc_edges :: adjacency where
  "abc_edges = add_edge (node_of ''C'') (node_of ''A'') (add_edge (node_of ''B'') (node_of ''C'')
     (add_edge (node_of ''A'') (node_of ''B'') simplex_new))"

definition simplex_tests :: "(geo_node_id \<times> geo_node_id set) list \<Rightarrow> bool" where
  "simplex_tests es \<longleftrightarrow> iterates es abc_edges \<longrightarrow> find_triangles es abc_edges \<noteq> [] \<and> 0 \<le> betti_number es abc_edges"

definition partitions_test :: bool where
  "partitions_test \<longleftrightarrow>
     (let a = node_of ''A''; b = node_of ''B''; c = node_of ''C''; d = node_of ''D'';
          adj = add_edge c d (add_edge a b simplex_new);
          es = [(c, {d}), (a, {b}), (d, {c}), (b, {a})];
          nbrs = (\<lambda>n. if n = a then [b] else if n = b then [a] else if n = c then [d] else [c])
      in map_option length (partitions es nbrs adj) = Some 2)"

definition removal_test :: "(geo_node_id \<times> geo_node_id set) list \<Rightarrow> (geo_node_id \<times> geo_node_id set) list \<Rightarrow> bool" where
  "removal_test es es' \<longleftrightarrow>
     (let a = node_of ''a''; b = node_of ''b''; c = node_of ''c'';
          path = add_edge b c (add_edge a b simplex_new); left = remove_edge a b (remove_edge a c path)
      in find_triangles [] simplex_new = [] \<and> count_edges [] = 0 \<and> betti_number [] simplex_new = 0
       \<and> (iterates es path \<longrightarrow> find_triangles es path = [])
       \<and> (iterates es' left \<longrightarrow> count_edges es' = 1))"

lemma simplex_tests_pass: "simplex_tests es"
proof -
  have t: "abc_edges = triangle_of (node_of ''A'') (node_of ''B'') (node_of ''C'')"
    by (simp add: abc_edges_def triangle_of_def)
  have d: "distinct [node_of ''A'', node_of ''B'', node_of ''C'']" by (simp add: node_of_def)
  have "length (find_triangles es abc_edges) = 1" "betti_number es abc_edges = 2" if "iterates es abc_edges"
    using find_triangles_length [OF triangle_of_ok that [unfolded t]] betti_of_triangle [OF d that [unfolded t]]
      three_cliques_triangle [OF d] by (simp_all add: t)
  then show ?thesis unfolding simplex_tests_def by (metis length_0_conv zero_le_numeral zero_neq_one)
qed

lemma partitions_test_pass: "partitions_test"
  by code_simp

lemma removal_test_pass: "removal_test es es'"
proof -
  let ?a = "node_of ''a''" and ?b = "node_of ''b''" and ?c = "node_of ''c''"
  let ?path = "add_edge ?b ?c (add_edge ?a ?b simplex_new)"
  let ?left = "remove_edge ?a ?b (remove_edge ?a ?c ?path)"
  have ok: "adj_ok ?path" "adj_ok ?left" by (intro remove_edge_ok add_edge_ok simplex_new_ok)+
  have d: "?a \<noteq> ?b" "?b \<noteq> ?c" "?a \<noteq> ?c" by (simp_all add: node_of_def)
  have none: "\<not> is_connected simplex_new x y" for x y by (simp add: simplex_new_def is_connected_def)
  have "triangle_at ?path ns t \<Longrightarrow> False" for ns t
    using d by (cases t) (simp add: triangle_at_def none, metis)
  then have no_triangle: "find_triangles es ?path = []" by (auto simp: find_triangles_indices filter_empty_conv)
  have left: "is_connected ?left x y \<longleftrightarrow> x = ?b \<and> y = ?c \<or> x = ?c \<and> y = ?b" for x y
    using d by (auto simp: none)
  have "proper_edges ?left = {{?b, ?c}}" unfolding proper_edges_def left using d by blast
  moreover have "loops ?left = {}" unfolding loops_def left using d by auto
  ultimately
  have one: "count_edges es' = 1" if "iterates es' ?left" using count_edges_sets [OF ok(2) that] by simp
  show ?thesis
    unfolding removal_test_def Let_def using one no_triangle by (simp add: find_triangles_def count_edges_def betti_number_def)
qed

section \<open>Warm-up\<close>

definition spike_tests :: "time \<Rightarrow> bool" where
  "spike_tests now \<longleftrightarrow> map_option spike_id (spike_new True 42 now) = Some 42 \<and> \<not> is_operational warmup_new
     \<and> \<not> is_operational (with_timeout 3000 (with_threshold (flit 0.001) (with_spikes 50 warmup_new)))"

definition spike_display_test :: "time \<Rightarrow> bool" where
  "spike_display_test now \<longleftrightarrow>
     (case spike_new True 4 now of
        None \<Rightarrow> False | Some s \<Rightarrow> spike_source s = GeoNodeId ''node-1'' \<and> spike_target s = GeoNodeId ''node-2'')
     \<and> contains (warmup_error_display (Timeout 10)) ''10''
     \<and> contains (warmup_error_display ConvergenceFailed) (''converg'' @ [CHR 0xC3, CHR 0xAA] @ ''ncia'')"

text \<open>The mock system: a constant variance, a count of the calls, a failure on request.\<close>

record mock =
  mk_variance :: f64
  mk_calls :: u32
  mk_fail :: bool

definition mock_process :: "synthetic_spike \<Rightarrow> mock \<Rightarrow> mock \<times> (warmup_error + unit)" where
  "mock_process s m = (if mk_fail m then (m, Inl ConvergenceFailed) else (m\<lparr>mk_calls := mk_calls m + 1\<rparr>, Inr ()))"

definition warmup_converges_test :: "(nat \<Rightarrow> time) \<Rightarrow> time \<Rightarrow> bool" where
  "warmup_converges_test clock now \<longleftrightarrow>
     (let w = with_threshold (flit 0.01) (with_spikes 20 warmup_new);
          m = \<lparr>mk_variance = flit 0, mk_calls = 0, mk_fail = False\<rparr>
      in elapsed_time_ms now w = 0
       \<and> (case warmup True mock_process mk_variance clock w m of
            Some ((w', _), Inr r) \<Rightarrow> converged r \<and> spikes_used r = 10 \<and> is_operational w' | _ \<Rightarrow> False))"

text \<open>The slow system sleeps for two milliseconds: \<open>clock\<close> shows at least one when the spike is done.\<close>

definition warmup_failure_test :: "(nat \<Rightarrow> time) \<Rightarrow> bool" where
  "warmup_failure_test clock \<longleftrightarrow>
     (let failed = \<lparr>mk_variance = flit 0, mk_calls = 0, mk_fail = True\<rparr>;
          slow = \<lparr>mk_variance = flit 1, mk_calls = 0, mk_fail = False\<rparr>
      in (case warmup True mock_process mk_variance clock (with_spikes 1 warmup_new) failed of
            Some (_, Inl ConvergenceFailed) \<Rightarrow> True | _ \<Rightarrow> False)
       \<and> (case warmup True mock_process mk_variance clock (with_timeout 0 (with_spikes 1 warmup_new)) slow of
            Some (_, Inl (Timeout _)) \<Rightarrow> True | _ \<Rightarrow> False))"

lemma spike_tests_pass: "spike_tests now"
  by (simp add: spike_tests_def spike_new_def add_chk_def is_operational_def warmup_new_def with_spikes_def
      with_threshold_def with_timeout_def)

lemma spike_display_test_pass: "spike_display_test now"
  by (simp add: spike_display_test_def spike_new_def add_chk_def show_word_def show_nat.simps digits)

text \<open>The mock after \<open>k\<close> spikes.\<close>

definition mock_after :: "f64 \<Rightarrow> nat \<Rightarrow> mock" where
  "mock_after v k = \<lparr>mk_variance = v, mk_calls = of_nat k, mk_fail = False\<rparr>"

lemma mock_processes: "processes mock_process clock n (mock_after v)"
  by (simp add: processes_def mock_process_def mock_after_def add.commute)

lemma mock_variances: "variances mk_variance (mock_after v) k = replicate k v"
  by (simp add: variances_def mock_after_def map_replicate_const)

lemma warmup_converges_test_pass: "warmup_converges_test clock now"
proof -
  let ?w = "with_threshold (flit 0.01) (with_spikes 20 warmup_new)"
  let ?start = "?w\<lparr>warmup_start_time := Some (clock 0), metric_history := []\<rparr>"
  have settle: "settled (convergence_threshold ?start) (variances mk_variance (mock_after (Fin 0)) j) \<longleftrightarrow> 10 \<le> j" for j
    using settled_zeros [of j] by (simp add: mock_variances with_threshold_def)
  have start: "metric_history ?start = last_n 20 (variances mk_variance (mock_after (Fin 0)) 0)" by (simp add: mock_variances last_n_def)
  have now10: "settled (convergence_threshold ?start) (variances mk_variance (mock_after (Fin 0)) 10)"
    and before: "\<forall>j. 0 < j \<longrightarrow> j < 10 \<longrightarrow> \<not> settled (convergence_threshold ?start) (variances mk_variance (mock_after (Fin 0)) j)"
    unfolding settle by simp_all
  note warmup_loop_converges [OF mock_processes _ now10 _ before _ start, where checks = True and clock = clock and n = 20]
  then obtain w' ms where "warmup_loop True mock_process mk_variance clock [0..<20] ?start (mock_after (Fin 0) 0) =
      Some ((w', mock_after (Fin 0) 10), Inr (Some \<lparr>spikes_used = 10, warmup_time_ms = ms, converged = True\<rparr>))"
      "is_warmed_up w'" by (simp del: upt_rec_numeral)
  moreover have "unat (num_warmup_spikes ?w) = 20" by (simp add: with_threshold_def with_spikes_def)
  moreover have "\<lparr>mk_variance = flit 0, mk_calls = 0, mk_fail = False\<rparr> = mock_after (Fin 0) 0" by (simp add: mock_after_def)
  ultimately have "warmup True mock_process mk_variance clock ?w \<lparr>mk_variance = flit 0, mk_calls = 0, mk_fail = False\<rparr> =
      Some ((w', mock_after (Fin 0) 10), Inr \<lparr>spikes_used = 10, warmup_time_ms = ms, converged = True\<rparr>)"
    by (simp only: warmup_def Let_def option.case prod.case sum.case)
  moreover have "elapsed_time_ms now ?w = 0"
    by (simp add: elapsed_time_ms_def with_threshold_def with_spikes_def warmup_new_def)
  ultimately show ?thesis using \<open>is_warmed_up w'\<close> by (simp add: warmup_converges_test_def is_operational_def Let_def)
qed

lemma warmup_failure_test_pass:
  assumes "clock 0 + 1000000 \<le> clock 2" "clock 2 < clock 0 + 2 ^ 64"
  shows "warmup_failure_test clock"
proof -
  have ms: "0 < elapsed_ms (clock 0) (clock 2)"
  proof -
    let ?d = "(clock 2 - clock 0) div 1000000"
    have "1 \<le> ?d" "?d < 2 ^ 64" using assms by linarith+
    then have "uint (word_of_int ?d :: u64) = ?d" by (simp add: unsigned_of_int take_bit_int_eq_self)
    then show ?thesis using assms \<open>1 \<le> ?d\<close> by (simp add: elapsed_ms_def word_less_def)
  qed
  show ?thesis
    using ms [unfolded numeral_2_eq_2] by (simp add: warmup_failure_test_def warmup_def mock_process_def spike_new_def add_chk_def Let_def
        with_spikes_def with_timeout_def warmup_new_def check_convergence_def push_metric_def elapsed_time_ms_def)
qed

section \<open>Metrics\<close>

definition collector_tests ::
  "64 word \<Rightarrow> (f64 \<Rightarrow> string) \<Rightarrow> (string \<times> u64) list \<Rightarrow> (string \<times> f64) list \<Rightarrow> bool" where
  "collector_tests now fmt cs gs \<longleftrightarrow>
     (case inc_counter True now ''requests_total'' None metrics_collector_new \<bind> inc_counter True now ''requests_total'' None of
        None \<Rightarrow> False
      | Some c \<Rightarrow>
          (let c' = observe_histogram now ''request_latency_ms'' (flit 150) None
                 (set_gauge now ''memory_usage_bytes'' (flit 1024) None c)
           in iterates cs (mc_counters c') \<longrightarrow> iterates gs (mc_gauges c') \<longrightarrow>
              contains (export_prometheus fmt cs gs) ''requests_total''
              \<and> contains (export_prometheus fmt cs gs) ''memory_usage_bytes''))
     \<and> (case record_request True True 100 (slo_tracker_new (slo_config_new ''test'' (flit 0.95) ''1m''))
             \<bind> record_request True True 200 \<bind> record_request True False 300 of
        None \<Rightarrow> False | Some t \<Rightarrow> current_sli t = f_div (flit 2) (flit 3))"

definition metric_tests :: "64 word \<Rightarrow> bool" where
  "metric_tests now \<longleftrightarrow>
     (let m = with_label ''tenant'' ''a'' (metric_counter now ''requests'' 2) in
        m_name m = ''requests'' \<and> m_value m = Counter 2 \<and> m_labels m ''tenant'' = Some ''a'')
     \<and> m_value (metric_gauge now ''load'' (flit 1)) = Gauge (flit 1)
     \<and> m_value (metric_histogram now ''latency'' (flit 2)) = Histogram (flit 2)"

definition labels_test ::
  "64 word \<Rightarrow> (f64 \<Rightarrow> string) \<Rightarrow> (string \<times> u64) list \<Rightarrow> (string \<times> f64) list \<Rightarrow> bool" where
  "labels_test now fmt cs gs \<longleftrightarrow>
     (let ls = Some [(''zone'', ''a''), (''tenant'', ''t1'')] in
      case inc_counter True now ''requests'' ls metrics_collector_new \<bind> inc_counter True now ''requests'' ls of
        None \<Rightarrow> False
      | Some c \<Rightarrow>
          (let c' = observe_histogram now ''latency'' (flit 12) ls (set_gauge now ''load'' (flit 0.5) ls c)
           in (iterates cs (mc_counters c') \<longrightarrow> contains (export_prometheus fmt cs gs) ''requests'')
            \<and> length (get_metrics c') = 4 \<and> get_metrics (clear_metrics c') = []))"

definition preset_tests :: bool where
  "preset_tests \<longleftrightarrow> slo_name availability_999 = ''availability'' \<and> slo_window latency_p95 = ''5m''
     \<and> error_budget_percent error_rate_1percent = flit 99"

definition window_test :: bool where
  "window_test \<longleftrightarrow>
     (let t = slo_tracker_new (slo_config_new ''test'' (flit 0.75) ''1m'') in
      current_sli t = flit 1 \<and> p95_latency t = 0 \<and> is_slo_met t
      \<and> (case fold (\<lambda>i t. t \<bind> record_request True (even i) (of_nat i)) [0..<1005] (Some t) of
           None \<Rightarrow> False | Some t' \<Rightarrow> 0 < p95_latency t' \<and> \<not> is_slo_met t'))"

lemma sample_window:
  "n < 2 ^ 32 \<Longrightarrow>
   \<exists>t. fold (\<lambda>i t. t \<bind> record_request True (even i) (of_nat i)) [0..<n] (Some (slo_tracker_new cfg)) = Some t
     \<and> tracker_ok t \<and> unat (total_requests t) = n \<and> unat (successful_requests t) = (n + 1) div 2
     \<and> latency_samples t = last_n 1000 (map of_nat [0..<n]) \<and> slo_cfg t = cfg"
proof (induction n)
  case 0
  then show ?case by (simp add: slo_tracker_new_def tracker_ok_def last_n_def)
next
  case (Suc n)
  then have n: "n < 2 ^ 32" by linarith
  from Suc.IH [OF n] obtain t where t:
    "fold (\<lambda>i t. t \<bind> record_request True (even i) (of_nat i)) [0..<n] (Some (slo_tracker_new cfg)) = Some t"
    "tracker_ok t" "unat (total_requests t) = n" "unat (successful_requests t) = (n + 1) div 2"
    "latency_samples t = last_n 1000 (map of_nat [0..<n])" "slo_cfg t = cfg" by blast
  have "unat (total_requests t) + unat (1 :: u64) < 2 ^ LENGTH(64)" "unat (successful_requests t) + unat (1 :: u64) < 2 ^ LENGTH(64)"
    using t(3,4) n by simp_all
  note inc = this [THEN add_chk_no_overflow(1)]
  obtain t' where t': "record_request True (even n) (of_nat n) t = Some t'" "slo_cfg t' = cfg"
    using inc t(6) by (cases "even n") (simp_all add: record_request_def)
  from record_request_ok [OF t(2) t'(1)] show ?case
    using t t' by (auto simp: last_n_snoc)
qed

lemma p95_in_samples:
  assumes "latency_samples t \<noteq> []"
  shows "p95_latency t \<in> set (latency_samples t)"
proof -
  have "min i (length (sort (latency_samples t)) - 1) < length (sort (latency_samples t))" for i
    using assms by (cases "latency_samples t") simp_all
  from nth_mem [OF this] show ?thesis using assms by (simp add: p95_latency_def Let_def)
qed

lemma window_test_pass: "window_test"
proof -
  let ?cfg = "slo_config_new ''test'' (flit 0.75) ''1m''"
  have quarter: "flit (3/4) = Fin (3/4)" using fround_exact [of "3/4" 3 "-2" False] by (simp add: flit_pos power_int_minus)
  obtain t where t: "fold (\<lambda>i t. t \<bind> record_request True (even i) (of_nat i)) [0..<1005] (Some (slo_tracker_new ?cfg)) = Some t"
    "unat (total_requests t) = 1005" "unat (successful_requests t) = 503"
    "latency_samples t = last_n 1000 (map of_nat [0..<1005])" "slo_cfg t = ?cfg"
    using sample_window [of 1005 ?cfg] by auto
  have "last_n 1000 (map of_nat [0..<1005]) = (map of_nat [5..<1005] :: u64 list)"
    by (simp only: last_n_def drop_map drop_upt length_map length_upt) simp
  then have samples: "latency_samples t = map of_nat [5..<1005]" using t(4) by simp
  have "0 < l" if "l \<in> set (latency_samples t)" for l
  proof -
    from that have "l \<in> of_nat ` {5..<1005}" by (simp only: samples set_map set_upt)
    then obtain i where i: "l = of_nat i" "i \<in> {5..<1005}" by (rule imageE)
    then have "unat l = i" by (simp add: unat_of_nat)
    then show ?thesis using i(2) by (simp add: word_less_nat_alt)
  qed
  moreover have "latency_samples t \<noteq> []" unfolding samples by (simp only: map_is_Nil_conv upt_eq_Nil_conv) simp
  then have "p95_latency t \<in> set (latency_samples t)" by (rule p95_in_samples)
  ultimately have p95: "0 < p95_latency t" by blast
  have "f_of_nat 503 = Fin 503" "f_of_nat 1005 = Fin 1005" using f_of_nat_exact [of 503] f_of_nat_exact [of 1005] by simp_all
  then have "current_sli t = fround False (503 / 1005)"
    using t(2,3) by (auto simp: current_sli_def f_div_def)
  moreover have "f_le (fround False (503 / 1005)) (fround False (5 / 8))" by (rule fround_mono) simp
  moreover have "fround False (5 / 8) = Fin (5 / 8)" using fround_exact [of "5/8" 5 "-3" False] by (simp add: power_int_minus)
  ultimately have "f_le (current_sli t) (Fin (5 / 8))" by simp
  then have "\<not> is_slo_met t"
    using f_le_trans [of "Fin (3/4)" "current_sli t" "Fin (5/8)"] by (auto simp: is_slo_met_def t(5) slo_config_new_def quarter)
  then show ?thesis
    using t(1) p95 by (simp add: window_test_def Let_def slo_tracker_new_def current_sli_def p95_latency_def is_slo_met_def
        slo_config_new_def quarter flits)
qed

lemma contains_concat: "x \<in> set xs \<Longrightarrow> contains x sub \<Longrightarrow> contains (concat xs) sub"
  by (induction xs) auto

lemma exported_counter:
  "iterates cs m \<Longrightarrow> m k = Some v \<Longrightarrow> contains k name \<Longrightarrow> contains (export_prometheus fmt cs gs) name"
  unfolding export_prometheus_def iterates_lookup
  by (rule contains_append(1), rule contains_concat [of "k @ '' '' @ show_word v @ [CHR 0x0A]"], force,
      erule contains_append(1))

lemma exported_gauge:
  "iterates gs m \<Longrightarrow> m k = Some v \<Longrightarrow> contains k name \<Longrightarrow> contains (export_prometheus fmt cs gs) name"
  unfolding export_prometheus_def iterates_lookup
  by (rule contains_append(2), rule contains_concat [of "k @ '' '' @ fmt v @ [CHR 0x0A]"], force,
      erule contains_append(1))

lemma collector_tests_pass: "collector_tests now fmt cs gs"
  unfolding collector_tests_def
proof (intro conjI)
  have c: "contains (export_prometheus fmt cs gs) ''requests_total''" if "iterates cs [''requests_total'' \<mapsto> 2]"
    using exported_counter [OF that, of "''requests_total''" 2 "''requests_total''"] by simp
  have g: "contains (export_prometheus fmt cs gs) ''memory_usage_bytes''" if "iterates gs [''memory_usage_bytes'' \<mapsto> flit 1024]"
    using exported_gauge [OF that, of "''memory_usage_bytes''" "flit 1024" "''memory_usage_bytes''"] by simp
  show "case inc_counter True now ''requests_total'' None metrics_collector_new \<bind> inc_counter True now ''requests_total'' None of
        None \<Rightarrow> False
      | Some c \<Rightarrow>
          (let c' = observe_histogram now ''request_latency_ms'' (flit 150) None
                 (set_gauge now ''memory_usage_bytes'' (flit 1024) None c)
           in iterates cs (mc_counters c') \<longrightarrow> iterates gs (mc_gauges c') \<longrightarrow>
              contains (export_prometheus fmt cs gs) ''requests_total''
              \<and> contains (export_prometheus fmt cs gs) ''memory_usage_bytes'')"
    by (simp add: inc_counter_def metrics_collector_new_def add_chk_def make_key_def set_gauge_def observe_histogram_def Let_def
        c g)
  show "case record_request True True 100 (slo_tracker_new (slo_config_new ''test'' (flit 0.95) ''1m''))
             \<bind> record_request True True 200 \<bind> record_request True False 300 of
        None \<Rightarrow> False | Some t \<Rightarrow> current_sli t = f_div (flit 2) (flit 3)"
    using small_ints [of 3 False]
    by (simp add: record_request_def slo_tracker_new_def add_chk_def push_latency_def current_sli_def f_of_nat_exact flits flit_pos)
qed

lemma metric_tests_pass: "metric_tests now"
  by (simp add: metric_tests_def with_label_def metric_counter_def metric_gauge_def metric_histogram_def Let_def)

lemma labels_test_pass: "labels_test now fmt cs gs"
proof -
  let ?ls = "Some [(''zone'', ''a''), (''tenant'', ''t1'')]"
  have key: "contains (make_key ''requests'' ?ls) ''requests''"
    by (simp add: make_key_def contains_append(1))
  have "contains (export_prometheus fmt cs gs) ''requests''" if "iterates cs [make_key ''requests'' ?ls \<mapsto> 2]"
    using exported_counter [OF that _ key, of 2] by simp
  then show ?thesis
    by (simp add: labels_test_def inc_counter_def metrics_collector_new_def add_chk_def set_gauge_def observe_histogram_def
        Let_def get_metrics_def clear_metrics_def)
qed

lemma preset_tests_pass: "preset_tests"
proof -
  have "f_sub (flit 1) (flit (1/100)) = Fin (8917127262193582 / 9007199254740992)"
    using fround_eval [of "-1" "1 - 5764607523034235 / 576460752303423488" "8917127262193582" False]
    by (simp add: flits f_sub_def f_add_finite power_int_minus)
  moreover have "f_mul (Fin (8917127262193582 / 9007199254740992)) (Fin 100) = Fin 99"
    using fround_eval [of 6 "8917127262193582 / 9007199254740992 * 100" "6966505673588736" False]
    by (simp add: f_mul_finite)
  moreover have "flit 99 = Fin 99" using small_ints [of 99 False] by (simp add: flit_pos)
  ultimately show ?thesis
    by (simp add: preset_tests_def availability_999_def latency_p95_def error_rate_1percent_def slo_config_new_def flits(8))
qed

end
