(* ===== verification/ControlThreads.thy ===== *)
theory ControlThreads
  imports Control
begin

text \<open>
  The control plane (\<open>kineplex-node/src/control.rs\<close>) under concurrent callers. \<open>submit\<close> and
  \<open>handle_node_failure\<close> are taken apart into their lock-protected actions; a thread's program
  counter says which action is next, and other threads may act, and the short methods may run,
  between any two. What still holds of all reachable states then, that an uninterrupted thread
  does what the sequential definition of its method does, and two interleavings that go wrong.
\<close>

section \<open>Threads and their actions\<close>

text \<open>
  \<open>submit\<close>: read the authentication flag, check and count the quota, store the graph, store the
  request, choose ready nodes (a read lock on the nodes), mark each of them (a write lock each).
  \<open>handle_node_failure\<close>: mark the failed node, choose a ready node, mark it. \<open>es\<close> is the
  iteration order of the nodes at the moment of the action.
\<close>

datatype control_pc =
    AtAuth submission_request | AtQuota submission_request
  | AtStoreGraph submission_request | AtStoreRequest submission_request | AtAllocate submission_request
  | AtFailure node_id | AtReallocate
  | AtMark "node_id list" "node_id list"
  | Rejected core_error | Answered "node_id list"

record control_thread =
  ct_graph_id :: graph_id
  ct_pc :: control_pc

fun control_action ::
  "(node_id \<times> cluster_node) list \<Rightarrow> control_thread \<times> node_control \<Rightarrow> control_thread \<times> node_control" where
  "control_action es (t, s) =
     (case ct_pc t of
        AtAuth req \<Rightarrow>
          (if nc_auth_enabled s \<and> sr_credentials req = None
           then (t\<lparr>ct_pc := Rejected AuthenticationRequired\<rparr>, s) else (t\<lparr>ct_pc := AtQuota req\<rparr>, s))
      | AtQuota req \<Rightarrow>
          (case check_quota req s of
             (s1, Inl e) \<Rightarrow> (t\<lparr>ct_pc := Rejected e\<rparr>, s1)
           | (s1, Inr _) \<Rightarrow> (t\<lparr>ct_pc := AtStoreGraph req\<rparr>, s1))
      | AtStoreGraph req \<Rightarrow>
          (t\<lparr>ct_pc := AtStoreRequest req\<rparr>, s\<lparr>nc_graphs := (nc_graphs s)(ct_graph_id t \<mapsto>
             create_distributed_graph (ct_graph_id t) (Some (sr_tenant_id req)) (request_graph_config req))\<rparr>)
      | AtStoreRequest req \<Rightarrow>
          (t\<lparr>ct_pc := AtAllocate req\<rparr>,
           s\<lparr>nc_submissions := (nc_submissions s)(sr_submission_id req \<mapsto> req)\<rparr>)
      | AtAllocate req \<Rightarrow>
          (let al = allocate_nodes es (unwrap_or (sc_required_nodes (sr_config req)) 1)
           in (t\<lparr>ct_pc := AtMark al al\<rparr>, s))
      | AtFailure nid \<Rightarrow>
          (t\<lparr>ct_pc := AtReallocate\<rparr>,
           s\<lparr>nc_cluster := update_node_state nid (NodeFailed ''Node failed'') (nc_cluster s)\<rparr>)
      | AtReallocate \<Rightarrow> (let al = allocate_nodes es 1 in (t\<lparr>ct_pc := AtMark al al\<rparr>, s))
      | AtMark al [] \<Rightarrow> (t\<lparr>ct_pc := Answered al\<rparr>, s)
      | AtMark al (nid # rest) \<Rightarrow> (t\<lparr>ct_pc := AtMark al rest\<rparr>, mark_executing (ct_graph_id t) [nid] s)
      | _ \<Rightarrow> (t, s))"

lemma control_action_marks:
  "(control_action es ^^ Suc (length rest)) (t\<lparr>ct_pc := AtMark al rest\<rparr>, s) =
     (t\<lparr>ct_pc := Answered al\<rparr>, mark_executing (ct_graph_id t) rest s)"
proof (induction rest arbitrary: s)
  case Nil
  then show ?case by (simp add: mark_executing_def)
next
  case (Cons nid rest)
  have "mark_executing (ct_graph_id t) rest (mark_executing (ct_graph_id t) [nid] s)
      = mark_executing (ct_graph_id t) (nid # rest) s"
    by (simp add: mark_executing_def)
  with Cons show ?case by (simp add: funpow_Suc_right del: funpow.simps)
qed

lemma control_action_then_marks:
  assumes "(control_action es ^^ k) (t, s) = (t\<lparr>ct_pc := AtMark al al\<rparr>, s1)"
  shows "(control_action es ^^ (Suc (length al) + k)) (t, s) =
    (t\<lparr>ct_pc := Answered al\<rparr>, mark_executing (ct_graph_id t) al s1)"
  using control_action_marks [where es = es and rest = al and t = t and al = al and s = s1] assms
  by (simp only: funpow_add comp_apply)

text \<open>A method that is not interrupted does what its sequential definition does.\<close>

lemma submit_thread_alone:
  assumes "control_submit pm gid now es req s = (s', Inr r)"
  shows "\<exists>n. (control_action es ^^ n) (\<lparr>ct_graph_id = gid, ct_pc = AtAuth req\<rparr>, s)
    = (\<lparr>ct_graph_id = gid, ct_pc = Answered (ar_allocated_nodes r)\<rparr>, s')"
proof -
  let ?al = "allocate_nodes es (unwrap_or (sc_required_nodes (sr_config req)) 1)"
  let ?t = "\<lparr>ct_graph_id = gid, ct_pc = AtAuth req\<rparr>"
  obtain s1 where v: "validate_submission req s = (s1, Inr ())"
    using assms by (auto simp: control_submit_def split: prod.splits sum.splits)
  then have auth: "\<not> (nc_auth_enabled s \<and> sr_credentials req = None)" and q: "check_quota req s = (s1, Inr ())"
    by (auto simp: validate_submission_def split: if_splits)
  let ?s3 = "s1\<lparr>nc_graphs := (nc_graphs s1)(gid \<mapsto> create_distributed_graph gid (Some (sr_tenant_id req))
      (request_graph_config req)), nc_submissions := (nc_submissions s1)(sr_submission_id req \<mapsto> req)\<rparr>"
  have "(control_action es ^^ 5) (?t, s) = (?t\<lparr>ct_pc := AtMark ?al ?al\<rparr>, ?s3)"
    using auth by (simp add: eval_nat_numeral q Let_def)
  from control_action_then_marks [OF this]
  have "(control_action es ^^ (Suc (length ?al) + 5)) (?t, s)
      = (\<lparr>ct_graph_id = gid, ct_pc = Answered ?al\<rparr>, mark_executing gid ?al ?s3)" by simp
  moreover have "s' = mark_executing gid ?al ?s3" "ar_allocated_nodes r = ?al"
    using assms v by (auto simp: control_submit_def Let_def)
  ultimately show ?thesis by auto
qed

lemma failure_thread_alone:
  assumes "handle_node_failure es nid gid s = (s', Inr al)"
  shows "\<exists>n. (control_action es ^^ n) (\<lparr>ct_graph_id = gid, ct_pc = AtFailure nid\<rparr>, s)
    = (\<lparr>ct_graph_id = gid, ct_pc = Answered al\<rparr>, s')"
proof -
  let ?t = "\<lparr>ct_graph_id = gid, ct_pc = AtFailure nid\<rparr>"
  let ?s1 = "s\<lparr>nc_cluster := update_node_state nid (NodeFailed ''Node failed'') (nc_cluster s)\<rparr>"
  have al: "al = allocate_nodes es 1" "s' = mark_executing gid al ?s1"
    using assms by (auto simp: handle_node_failure_def Let_def)
  have "(control_action es ^^ 2) (?t, s) = (?t\<lparr>ct_pc := AtMark al al\<rparr>, ?s1)"
    by (simp add: eval_nat_numeral al(1) Let_def)
  from control_action_then_marks [OF this]
  have "(control_action es ^^ (Suc (length al) + 2)) (?t, s) = (\<lparr>ct_graph_id = gid, ct_pc = Answered al\<rparr>, s')"
    by (simp add: al(2))
  then show ?thesis by blast
qed

section \<open>The concurrent system\<close>

type_synonym control_system = "(nat \<Rightarrow> control_thread) \<times> node_control"

definition control_thread_step :: "(node_id \<times> cluster_node) list \<Rightarrow> nat \<Rightarrow> control_system \<Rightarrow> control_system" where
  "control_thread_step es i c = (case control_action es (fst c i, snd c) of (t, s) \<Rightarrow> ((fst c)(i := t), s))"

text \<open>Either a thread does its next action, or one of the events of \<open>Control\<close> happens.\<close>

inductive system_step :: "(time \<Rightarrow> int \<Rightarrow> time) \<Rightarrow> control_system \<Rightarrow> control_system \<Rightarrow> bool" for pm where
  thread: "iterates es (nodes (nc_cluster (snd c))) \<Longrightarrow> system_step pm c (control_thread_step es i c)"
| event: "event_ok ev s \<Longrightarrow> system_step pm (ths, s) (ths, apply_event pm ev s)"

inductive_cases system_stepE: "system_step pm c c'"

definition thread_start :: "control_pc \<Rightarrow> bool" where
  "thread_start pc \<longleftrightarrow> (\<exists>req. pc = AtAuth req) \<or> (\<exists>nid. pc = AtFailure nid)"

definition system_init :: "control_system \<Rightarrow> bool" where
  "system_init c \<longleftrightarrow> control_init (snd c) \<and> (\<forall>i. thread_start (ct_pc (fst c i)))"

definition pc_ok :: "node_control \<Rightarrow> control_pc \<Rightarrow> bool" where
  "pc_ok s pc \<longleftrightarrow>
     (case pc of
        AtMark al rest \<Rightarrow> distinct al \<and> set al \<subseteq> dom (nodes (nc_cluster s))
      | Answered al \<Rightarrow> distinct al \<and> set al \<subseteq> dom (nodes (nc_cluster s))
      | _ \<Rightarrow> True)"

definition system_inv :: "control_system \<Rightarrow> bool" where
  "system_inv c \<longleftrightarrow> control_inv (snd c) \<and> (\<forall>i. pc_ok (snd c) (ct_pc (fst c i)))"

lemma pc_ok_mono:
  "pc_ok s pc \<Longrightarrow> dom (nodes (nc_cluster s)) \<subseteq> dom (nodes (nc_cluster s')) \<Longrightarrow> pc_ok s' pc"
  unfolding pc_ok_def by (cases pc) (simp_all, blast+)

lemma thread_start_ok: "thread_start pc \<Longrightarrow> pc_ok s pc"
  by (auto simp: thread_start_def pc_ok_def)

text \<open>Neither an action nor an event removes a node.\<close>

lemma dom_update_node_state [simp]: "dom (nodes (update_node_state nid st c)) = dom (nodes c)"
  by (auto simp: update_node_state_def split: option.splits)

lemma dom_mark_executing [simp]:
  "dom (nodes (nc_cluster (mark_executing gid ks s))) = dom (nodes (nc_cluster s))"
proof -
  have "dom (nodes (cl.claim ks st c)) = dom (nodes c)" for st c
    by (induction ks arbitrary: c) simp_all
  then show ?thesis by (simp add: mark_executing_claim)
qed

lemma lookup_kept [simp]:
  "(\<exists>y. nodes (update_node_state nid st c) x = Some y) \<longleftrightarrow> (\<exists>y. nodes c x = Some y)"
  "(\<exists>y. nodes (nc_cluster (mark_executing gid ks s)) x = Some y) \<longleftrightarrow> (\<exists>y. nodes (nc_cluster s) x = Some y)"
  using dom_update_node_state [of nid st c] dom_mark_executing [of gid ks s] unfolding dom_def set_eq_iff by simp_all

lemma check_quota_frame:
  assumes "check_quota req s = (s', r)"
  shows "nc_cluster s' = nc_cluster s" and "nc_graphs s' = nc_graphs s" and "quotas_ok s \<Longrightarrow> quotas_ok s'"
  using assms
  by (auto simp: check_quota_def quotas_ok_def ran_def unat_inc_below not_le split: option.splits if_splits) blast

lemma event_dom: "dom (nodes (nc_cluster s)) \<subseteq> dom (nodes (nc_cluster (apply_event pm ev s)))"
proof (cases ev)
  case (EvSubmit gid now es req)
  obtain s1 r where v: "validate_submission req s = (s1, r)" by fastforce
  then have "nc_cluster s1 = nc_cluster s"
    by (auto simp: validate_submission_def check_quota_frame(1) split: if_splits)
  with v show ?thesis by (auto simp: EvSubmit control_submit_def Let_def split: sum.splits)
qed (auto simp: set_auth_enabled_def register_tenant_def register_node_def control_cancel_def
    handle_node_failure_def handle_node_rejoin_def handle_rejoin_def Let_def
    split: option.splits graph_status.splits)

lemma chosen_ok:
  assumes "control_inv s" "iterates es (nodes (nc_cluster s))"
  shows "distinct (allocate_nodes es n) \<and> set (allocate_nodes es n) \<subseteq> dom (nodes (nc_cluster s))"
  using assms distinct_allocate_nodes [of es "nc_cluster s" n] set_get_ready_nodes [of es "nc_cluster s"]
  by (auto simp: control_inv_def allocate_nodes_def dest!: in_set_takeD)

lemma control_action_ok:
  assumes "control_inv s" "iterates es (nodes (nc_cluster s))" "pc_ok s (ct_pc t)"
    and "control_action es (t, s) = (t', s')"
  shows "control_inv s'" and "pc_ok s' (ct_pc t')"
    and "dom (nodes (nc_cluster s)) \<subseteq> dom (nodes (nc_cluster s'))"
proof -
  note inv = assms(1) and chosen = chosen_ok [OF assms(1,2)]
  have "control_inv s' \<and> pc_ok s' (ct_pc t') \<and> dom (nodes (nc_cluster s)) \<subseteq> dom (nodes (nc_cluster s'))"
  proof (cases "ct_pc t")
    case (AtQuota req)
    obtain s1 r where q: "check_quota req s = (s1, r)" by fastforce
    with assms(4) AtQuota have "s' = s1" "pc_ok s' (ct_pc t')"
      by (auto simp: pc_ok_def split: sum.splits)
    with inv check_quota_frame [OF q] show ?thesis by (auto simp: control_inv_def)
  next
    case (AtStoreGraph req)
    with assms(4) inv show ?thesis
      by (auto simp: control_inv_def quotas_ok_def pc_ok_def create_distributed_graph_def split: if_splits)
  next
    case (AtMark al rest)
    with assms(3,4) inv show ?thesis
      by (cases rest) (auto simp: mark_executing_inv pc_ok_def)
  qed (use assms(3,4) inv chosen in \<open>auto simp: control_inv_def quotas_ok_def pc_ok_def update_node_state_wf Let_def
      split: if_splits\<close>)
  then show "control_inv s'" "pc_ok s' (ct_pc t')" "dom (nodes (nc_cluster s)) \<subseteq> dom (nodes (nc_cluster s'))"
    by simp_all
qed

lemma system_step_inv: "system_inv c \<Longrightarrow> system_step pm c c' \<Longrightarrow> system_inv c'"
proof (erule system_stepE)
  fix es i assume inv: "system_inv c" and it: "iterates es (nodes (nc_cluster (snd c)))"
    and c': "c' = control_thread_step es i c"
  obtain t' s' where a: "control_action es (fst c i, snd c) = (t', s')" by fastforce
  from inv have ok: "control_inv (snd c)" "\<And>j. pc_ok (snd c) (ct_pc (fst c j))" by (auto simp: system_inv_def)
  note act = control_action_ok [OF ok(1) it ok(2) a]
  show "system_inv c'"
    using act pc_ok_mono [OF ok(2) act(3)] by (simp add: c' control_thread_step_def a system_inv_def del: control_action.simps)
next
  fix ev s ths assume inv: "system_inv c" and ev: "event_ok ev s"
    and c: "c = (ths, s)" "c' = (ths, apply_event pm ev s)"
  then show "system_inv c'"
    using apply_event_inv [OF _ ev] pc_ok_mono [OF _ event_dom] by (simp add: system_inv_def)
qed

interpretation sys: invariant_system system_init "system_step pm" system_inv for pm
proof unfold_locales
  show "system_inv c" if "system_init c" for c
    using that control_init_inv thread_start_ok by (auto simp: system_init_def system_inv_def)
  show "system_inv c'" if "system_inv c" "system_step pm c c'" for c c'
    using that by (rule system_step_inv)
qed

text \<open>
  C4: However submissions and failure handlers interleave with each other and with the other
  methods, in every state that can be reached no tenant has more active graphs than its maximum,
  every node of the cluster and every graph is stored under its own id, every graph is pending,
  and the nodes answered to a caller are distinct nodes of the cluster.
\<close>

theorem quota_never_exceeded:
  assumes "reach system_init (system_step pm) c" and "nc_tenant_quotas (snd c) tenant = Some q"
  shows "tq_active_graphs q \<le> tq_max_concurrent_graphs q
    \<and> cluster_wf (nc_cluster (snd c))
    \<and> (\<forall>gid g. nc_graphs (snd c) gid = Some g \<longrightarrow> g_id g = gid \<and> g_status g = Pending)
    \<and> (\<forall>i al. ct_pc (fst c i) = Answered al \<longrightarrow> distinct al \<and> set al \<subseteq> dom (nodes (nc_cluster (snd c))))"
proof -
  have inv: "control_inv (snd c)" "\<And>i. pc_ok (snd c) (ct_pc (fst c i))"
    using sys.reach_inv [OF assms(1)] by (simp_all add: system_inv_def)
  have "distinct al \<and> set al \<subseteq> dom (nodes (nc_cluster (snd c)))" if "ct_pc (fst c i) = Answered al" for i al
    using inv(2) [of i] that by (simp add: pc_ok_def)
  with inv(1) assms(2) show ?thesis by (auto simp: control_inv_def quotas_ok_def ran_def)
qed

section \<open>Schedules\<close>

text \<open>A schedule lists the threads in the order in which they act, with the iteration order each finds.\<close>

definition run_threads :: "((node_id \<times> cluster_node) list \<times> nat) list \<Rightarrow> control_system \<Rightarrow> control_system" where
  "run_threads sched c = fold (\<lambda>(es, i). control_thread_step es i) sched c"

lemma run_threads_simps [simp]:
  "run_threads [] c = c"
  "run_threads ((es, i) # sched) c = run_threads sched (control_thread_step es i c)"
  by (simp_all add: run_threads_def)

lemmas thread_defs = control_thread_step_def check_quota_def mark_executing_def allocate_nodes_def unwrap_or_def

text \<open>
  Two submissions of a tenant that may have one graph: the second reads the authentication flag
  before the first counts, and is still refused.
\<close>

definition sample_system :: control_system where
  "sample_system = run_threads (map (Pair sample_order) [0, 1, 0, 1, 0, 0])
     (\<lambda>i. \<lparr>ct_graph_id = GraphId (if i = 0 then 7 else 8), ct_pc = AtAuth (tenant_request ''t'')\<rparr>,
      register_tenant (sample_quota 1) sample_control)"

text \<open>
  C36: Choosing ready nodes and marking them are separate critical sections. Two concurrent
  submissions that both choose before either marks are given the same node, and both are
  answered with it.
\<close>

theorem double_allocation_race:
  assumes "\<not> nc_auth_enabled s" and "nc_tenant_quotas s (sr_tenant_id r0) = None"
    and "nc_tenant_quotas s (sr_tenant_id r1) = None"
    and "sc_required_nodes (sr_config r0) = Some 1" and "sc_required_nodes (sr_config r1) = Some 1"
    and "get_ready_nodes es = nid # rest" and "iterates es (nodes (nc_cluster s))"
    and "ths 0 = \<lparr>ct_graph_id = gid0, ct_pc = AtAuth r0\<rparr>"
    and "ths 1 = \<lparr>ct_graph_id = gid1, ct_pc = AtAuth r1\<rparr>"
    and "c = run_threads [(es, 0), (es, 0), (es, 0), (es, 0), (es, 1), (es, 1), (es, 1), (es, 1),
      (es, 0), (es, 1), (es, 0), (es, 1), (es, 0), (es, 1)] (ths, s)"
  shows "ct_pc (fst c 0) = Answered [nid] \<and> ct_pc (fst c 1) = Answered [nid]"
  using assms(1-6,8-) by (simp add: thread_defs Let_def)

text \<open>
  C37: A submission that has chosen a node, then sees it fail, still marks it: the failure handler has
  answered, and the failed node is recorded as executing the new graph.
\<close>

theorem failure_overwritten_race:
  assumes "\<not> nc_auth_enabled s" and "nc_tenant_quotas s (sr_tenant_id req) = None"
    and "sc_required_nodes (sr_config req) = Some 1"
    and "get_ready_nodes es = nid # rest" and "cluster_order es (nc_cluster s)"
    and "cluster_order es' (update_node_state nid (NodeFailed ''Node failed'') (nc_cluster s))"
    and "ths 0 = \<lparr>ct_graph_id = gid0, ct_pc = AtAuth req\<rparr>"
    and "ths 1 = \<lparr>ct_graph_id = gid1, ct_pc = AtFailure nid\<rparr>"
    and "c = run_threads [(es, 0), (es, 0), (es, 0), (es, 0), (es, 0),
      (es, 1), (es', 1), (es', 1), (es', 1), (es', 0), (es', 0)] (ths, s)"
  shows "(\<exists>al. ct_pc (fst c 1) = Answered al \<and> nid \<notin> set al) \<and> ct_pc (fst c 0) = Answered [nid]
    \<and> map_option cn_state (nodes (nc_cluster (snd c)) nid) = Some (Executing gid0)"
proof -
  let ?failed = "update_node_state nid (NodeFailed ''Node failed'') (nc_cluster s)"
  obtain n where n: "nodes (nc_cluster s) nid = Some n"
    using assms(4,5) set_get_ready_nodes [of es "nc_cluster s" nid] by (auto simp: cluster_order_def)
  then have "nid \<notin> set (get_ready_nodes es')"
    using assms(6) set_get_ready_nodes [of es' ?failed nid] by (auto simp: cluster_order_def update_node_state_def)
  then show ?thesis
    using assms(1-4,7-) n
    by (cases "get_ready_nodes es'") (auto simp: thread_defs Let_def update_node_state_def split: option.splits)
qed

theorem double_allocation_race_witness:
  "let c = run_threads (map (Pair sample_order) [0, 0, 0, 0, 1, 1, 1, 1, 0, 1, 0, 1, 0, 1])
       (\<lambda>i. \<lparr>ct_graph_id = GraphId (if i = 0 then 7 else 8), ct_pc = AtAuth (tenant_request ''t'')\<rparr>, sample_control)
   in ct_pc (fst c 0) = Answered [NodeId ''n''] \<and> ct_pc (fst c 1) = Answered [NodeId ''n'']"
proof -
  let ?ths = "\<lambda>i :: nat. \<lparr>ct_graph_id = GraphId (if i = 0 then 7 else 8), ct_pc = AtAuth (tenant_request ''t'')\<rparr>"
  have "\<not> nc_auth_enabled sample_control" "nc_tenant_quotas sample_control (sr_tenant_id (tenant_request ''t'')) = None"
    "sc_required_nodes (sr_config (tenant_request ''t'')) = Some 1"
    "get_ready_nodes sample_order = NodeId ''n'' # []" "iterates sample_order (nodes (nc_cluster sample_control))"
    "?ths 0 = \<lparr>ct_graph_id = GraphId 7, ct_pc = AtAuth (tenant_request ''t'')\<rparr>"
    "?ths 1 = \<lparr>ct_graph_id = GraphId 8, ct_pc = AtAuth (tenant_request ''t'')\<rparr>"
    using sample_cluster_order by (simp_all add: sample_defs get_ready_nodes_def cluster_order_def)
  from double_allocation_race [OF this(1,2,2,3,3,4-7) refl] show ?thesis by (simp only: Let_def list.map)
qed

theorem failure_overwritten_race_witness:
  "let es' = [(NodeId ''n'', (snd (hd sample_order))\<lparr>cn_state := NodeFailed ''Node failed''\<rparr>)];
       c = run_threads (map (Pair sample_order) [0, 0, 0, 0, 0, 1] @ map (Pair es') [1, 1, 1, 0, 0])
         (\<lambda>i. if i = 0 then \<lparr>ct_graph_id = GraphId 7, ct_pc = AtAuth (tenant_request ''t'')\<rparr>
              else \<lparr>ct_graph_id = GraphId 8, ct_pc = AtFailure (NodeId ''n'')\<rparr>, sample_control)
   in map_option cn_state (nodes (nc_cluster (snd c)) (NodeId ''n'')) = Some (Executing (GraphId 7))"
proof -
  let ?es' = "[(NodeId ''n'', (snd (hd sample_order))\<lparr>cn_state := NodeFailed ''Node failed''\<rparr>)]"
  let ?ths = "\<lambda>i :: nat. if i = 0 then \<lparr>ct_graph_id = GraphId 7, ct_pc = AtAuth (tenant_request ''t'')\<rparr>
    else \<lparr>ct_graph_id = GraphId 8, ct_pc = AtFailure (NodeId ''n'')\<rparr>"
  have "\<not> nc_auth_enabled sample_control" "nc_tenant_quotas sample_control (sr_tenant_id (tenant_request ''t'')) = None"
    "sc_required_nodes (sr_config (tenant_request ''t'')) = Some 1"
    "get_ready_nodes sample_order = NodeId ''n'' # []"
    by (simp_all add: sample_defs get_ready_nodes_def)
  note idle = this
  have order: "cluster_order ?es' (update_node_state (NodeId ''n'') (NodeFailed ''Node failed'') (nc_cluster sample_control))"
    using order_update [OF sample_cluster_order, of "NodeId ''n''" "NodeFailed ''Node failed''"]
    by (simp add: sample_order_def)
  have ths: "?ths 0 = \<lparr>ct_graph_id = GraphId 7, ct_pc = AtAuth (tenant_request ''t'')\<rparr>"
    "?ths 1 = \<lparr>ct_graph_id = GraphId 8, ct_pc = AtFailure (NodeId ''n'')\<rparr>" by simp_all
  show ?thesis
    using failure_overwritten_race [OF idle sample_cluster_order order ths refl]
    unfolding Let_def list.map append.simps by (elim conjE)
qed

lemma reach_threads:
  "reach system_init (system_step pm) c \<Longrightarrow>
   (\<And>k. k < length is \<Longrightarrow> iterates es (nodes (nc_cluster (snd (run_threads (map (Pair es) (take k is)) c))))) \<Longrightarrow>
   reach system_init (system_step pm) (run_threads (map (Pair es) is) c)"
proof (induction "is" arbitrary: c)
  case (Cons i "is")
  have "iterates es (nodes (nc_cluster (snd c)))" using Cons.prems(2) [of 0] by simp
  from Cons.IH [OF reach_step [OF Cons.prems(1) system_step.thread [OF this]]] Cons.prems(2) [of "Suc k" for k]
  show ?case by simp
qed simp

lemma reach_sample_system: "reach system_init (system_step pm) sample_system"
proof -
  let ?ths = "\<lambda>i :: nat. \<lparr>ct_graph_id = GraphId (if i = 0 then 7 else 8), ct_pc = AtAuth (tenant_request ''t'')\<rparr>"
  have "reach system_init (system_step pm) (?ths, sample_control)"
    by (rule reach_init) (auto simp: system_init_def thread_start_def control_init_def sample_control_def)
  from reach_step [OF this system_step.event [of "EvRegisterTenant (sample_quota 1)"]]
  have "reach system_init (system_step pm) (?ths, register_tenant (sample_quota 1) sample_control)"
    by (simp add: sample_quota_def)
  moreover have "iterates sample_order (nodes (nc_cluster (snd (run_threads (map (Pair sample_order) (take k [0, 1, 0, 1, 0, 0]))
      (?ths, register_tenant (sample_quota 1) sample_control)))))" if "k < 6" for k
  proof -
    have "k \<in> {0, 1, 2, 3, 4, 5}" using that by auto
    then have "nc_cluster (snd (run_threads (map (Pair sample_order) (take k [0, 1, 0, 1, 0, 0]))
        (?ths, register_tenant (sample_quota 1) sample_control))) = nc_cluster sample_control"
      by (auto simp: thread_defs sample_defs Let_def)
    then show ?thesis using sample_cluster_order by (simp add: cluster_order_def)
  qed
  ultimately show ?thesis unfolding sample_system_def by (intro reach_threads) simp_all
qed

theorem quota_never_exceeded_witness:
  "(\<exists>q. nc_tenant_quotas (snd sample_system) ''t'' = Some q \<and> tq_active_graphs q = 1
     \<and> tq_active_graphs q \<le> tq_max_concurrent_graphs q)
   \<and> (\<exists>m. ct_pc (fst sample_system 1) = Rejected (QuotaExceeded m))"
proof -
  have q: "nc_tenant_quotas (snd sample_system) ''t'' = Some ((sample_quota 1)\<lparr>tq_active_graphs := 1\<rparr>)"
    and r: "\<exists>m. ct_pc (fst sample_system 1) = Rejected (QuotaExceeded m)"
    by (simp_all add: sample_system_def thread_defs sample_defs)
  from quota_never_exceeded [OF reach_sample_system q] q r show ?thesis by simp
qed

section \<open>Every caller is answered\<close>

text \<open>
  No action waits for another thread: a caller is answered after a number of its own actions
  that depends on its request alone, whatever the others do meanwhile.
\<close>

datatype system_move = Act "(node_id \<times> cluster_node) list" nat | Occur control_event

fun move :: "(time \<Rightarrow> int \<Rightarrow> time) \<Rightarrow> system_move \<Rightarrow> control_system \<Rightarrow> control_system" where
  "move pm (Act es i) c = control_thread_step es i c"
| "move pm (Occur ev) c = (fst c, apply_event pm ev (snd c))"

definition own_actions :: "nat \<Rightarrow> system_move list \<Rightarrow> nat" where
  "own_actions i ms = length (filter (\<lambda>m. case m of Act es j \<Rightarrow> j = i | Occur ev \<Rightarrow> False) ms)"

definition nodes_asked :: "submission_request \<Rightarrow> nat" where
  "nodes_asked req = unat (unwrap_or (sc_required_nodes (sr_config req)) 1)"

fun pc_within :: "nat \<Rightarrow> control_pc \<Rightarrow> bool" where
  "pc_within n (AtMark al rest) = (length al \<le> n \<and> length rest \<le> n)"
| "pc_within n (Answered al) = (length al \<le> n)"
| "pc_within n (Rejected e) = (case e of AuthenticationRequired \<Rightarrow> True | QuotaExceeded m \<Rightarrow> True | _ \<Rightarrow> False)"
| "pc_within n (AtFailure nid) = (1 \<le> n)"
| "pc_within n AtReallocate = (1 \<le> n)"
| "pc_within n (AtAuth req) = (nodes_asked req \<le> n)"
| "pc_within n (AtQuota req) = (nodes_asked req \<le> n)"
| "pc_within n (AtStoreGraph req) = (nodes_asked req \<le> n)"
| "pc_within n (AtStoreRequest req) = (nodes_asked req \<le> n)"
| "pc_within n (AtAllocate req) = (nodes_asked req \<le> n)"

fun actions_left :: "nat \<Rightarrow> control_pc \<Rightarrow> nat" where
  "actions_left n (AtAuth req) = n + 6"
| "actions_left n (AtQuota req) = n + 5"
| "actions_left n (AtStoreGraph req) = n + 4"
| "actions_left n (AtStoreRequest req) = n + 3"
| "actions_left n (AtAllocate req) = n + 2"
| "actions_left n (AtFailure nid) = n + 3"
| "actions_left n AtReallocate = n + 2"
| "actions_left n (AtMark al rest) = length rest + 1"
| "actions_left n (Rejected e) = 0"
| "actions_left n (Answered al) = 0"

lemma length_allocate_le: "length (allocate_nodes es k) \<le> unat k"
  by (simp add: allocate_nodes_def)

lemma control_action_progress:
  assumes "control_action es (t, s) = (t', s')" "pc_within n (ct_pc t)"
  shows "pc_within n (ct_pc t')" and "actions_left n (ct_pc t') \<le> actions_left n (ct_pc t) - 1"
proof -
  have le: "length (allocate_nodes es k) \<le> n" if "unat k \<le> n" for k
    using length_allocate_le [of es k] that by simp
  have "pc_within n (ct_pc t') \<and> actions_left n (ct_pc t') \<le> actions_left n (ct_pc t) - 1"
  proof (cases "ct_pc t")
    case (AtQuota req)
    then show ?thesis
      using assms by (cases "check_quota req s") (auto simp: check_quota_def split: sum.splits option.splits if_splits)
  next
    case (AtMark al rest)
    then show ?thesis using assms by (cases rest) auto
  qed (use assms le in \<open>auto simp: nodes_asked_def Let_def split: if_splits\<close>)
  then show "pc_within n (ct_pc t')" "actions_left n (ct_pc t') \<le> actions_left n (ct_pc t) - 1" by simp_all
qed

lemma move_progress:
  assumes "pc_within n (ct_pc (fst c i))"
  shows "pc_within n (ct_pc (fst (move pm m c) i))"
    and "actions_left n (ct_pc (fst (move pm m c) i)) \<le> actions_left n (ct_pc (fst c i)) - own_actions i [m]"
proof -
  have "pc_within n (ct_pc (fst (move pm m c) i))
    \<and> actions_left n (ct_pc (fst (move pm m c) i)) \<le> actions_left n (ct_pc (fst c i)) - own_actions i [m]"
  proof (cases m)
    case (Act es j)
    obtain t' s' where a: "control_action es (fst c j, snd c) = (t', s')" by fastforce
    then have "move pm m c = ((fst c)(j := t'), s')"
      by (simp add: Act control_thread_step_def del: control_action.simps)
    then show ?thesis
      using assms control_action_progress [OF a, of n] by (auto simp: Act own_actions_def)
  qed (use assms in \<open>simp add: own_actions_def\<close>)
  then show "pc_within n (ct_pc (fst (move pm m c) i))"
    "actions_left n (ct_pc (fst (move pm m c) i)) \<le> actions_left n (ct_pc (fst c i)) - own_actions i [m]"
    by simp_all
qed

lemma moves_progress:
  assumes "pc_within n (ct_pc (fst c i))"
  shows "pc_within n (ct_pc (fst (fold (move pm) ms c) i))
    \<and> actions_left n (ct_pc (fst (fold (move pm) ms c) i)) \<le> actions_left n (ct_pc (fst c i)) - own_actions i ms"
  using assms
proof (induction ms arbitrary: c)
  case Nil
  then show ?case by (simp add: own_actions_def)
next
  case (Cons m ms)
  note step = move_progress [OF Cons.prems, of pm m]
  have "own_actions i (m # ms) = own_actions i [m] + own_actions i ms" by (simp add: own_actions_def)
  with Cons.IH [OF step(1)] step(2) show ?case
    unfolding fold_simps by (elim conjE, intro conjI) (assumption, linarith)
qed

lemma callers_finish:
  assumes "pc_within n (ct_pc (fst c i))" "actions_left n (ct_pc (fst c i)) \<le> own_actions i ms"
  shows "(\<exists>al. ct_pc (fst (fold (move pm) ms c) i) = Answered al \<and> length al \<le> n)
    \<or> ct_pc (fst (fold (move pm) ms c) i) = Rejected AuthenticationRequired
    \<or> (\<exists>m. ct_pc (fst (fold (move pm) ms c) i) = Rejected (QuotaExceeded m))"
proof -
  let ?pc = "ct_pc (fst (fold (move pm) ms c) i)"
  have "pc_within n ?pc" "actions_left n ?pc = 0" using moves_progress [OF assms(1), of pm ms] assms(2) by simp_all
  then show ?thesis by (cases ?pc) (simp_all split: core_error.splits)
qed

text \<open>
  C35: Every submission returns: six actions of its own and one for each node it asks for are
  enough, in every interleaving with any number of other submissions, failure handlers and calls
  of the other methods. It is then answered with at most as many nodes as it asked for, or
  rejected for want of credentials or of quota.
\<close>

theorem submit_returns:
  assumes "ct_pc (fst c i) = AtAuth req" and "nodes_asked req + 6 \<le> own_actions i ms"
  shows "(\<exists>al. ct_pc (fst (fold (move pm) ms c) i) = Answered al \<and> length al \<le> nodes_asked req)
    \<or> ct_pc (fst (fold (move pm) ms c) i) = Rejected AuthenticationRequired
    \<or> (\<exists>m. ct_pc (fst (fold (move pm) ms c) i) = Rejected (QuotaExceeded m))"
  using assms by (intro callers_finish) simp_all

theorem submit_returns_witness:
  "let c = (\<lambda>i. \<lparr>ct_graph_id = GraphId (if i = 0 then 7 else 8), ct_pc = AtAuth (tenant_request ''t'')\<rparr>, sample_control);
       ms = concat (replicate 7 [Act sample_order 1, Occur (EvNodeRejoin (NodeId ''n'')), Act sample_order 0]);
       pc = ct_pc (fst (fold (move (+)) ms c) 0)
   in (\<exists>al. pc = Answered al \<and> length al \<le> 1) \<or> pc = Rejected AuthenticationRequired \<or> (\<exists>m. pc = Rejected (QuotaExceeded m))"
proof -
  let ?c = "(\<lambda>i :: nat. \<lparr>ct_graph_id = GraphId (if i = 0 then 7 else 8), ct_pc = AtAuth (tenant_request ''t'')\<rparr>, sample_control)"
  let ?ms = "concat (replicate 7 [Act sample_order 1, Occur (EvNodeRejoin (NodeId ''n'')), Act sample_order 0])"
  have "ct_pc (fst ?c 0) = AtAuth (tenant_request ''t'')" by simp
  moreover have "nodes_asked (tenant_request ''t'') + 6 \<le> own_actions 0 ?ms"
    by (simp add: nodes_asked_def own_actions_def sample_defs unwrap_or_def eval_nat_numeral)
  moreover have "nodes_asked (tenant_request ''t'') = 1"
    by (simp add: nodes_asked_def sample_defs unwrap_or_def)
  ultimately show ?thesis unfolding Let_def using submit_returns [where c = ?c and i = 0 and ms = ?ms and pm = "(+)"] by metis
qed

end
