(* ===== verification/Serializable.thy ===== *)
theory Serializable
  imports GraphStore "HOL-Library.Multiset"
begin

text \<open>
  When concurrent submissions (\<open>kineplex-core/src/graph.rs\<close>, \<open>submit\<close>) are harmless. The theory
  \<open>GraphStore\<close> shows that two of them under one key can both create a graph. Here: submissions
  under different keys (or none) of different graphs are serialisable. Whatever the schedule of
  their critical sections, the result is that of running them one after the other, in any order.
\<close>

section \<open>Actions of different submissions commute\<close>

definition independent :: "submit_thread \<Rightarrow> submit_thread \<Rightarrow> bool" where
  "independent t u \<longleftrightarrow> g_id (th_graph t) \<noteq> g_id (th_graph u) \<and> (th_key t = None \<or> th_key t \<noteq> th_key u)"

text \<open>What an action does to its thread, given what it reads, and what it writes.\<close>

lemma submit_action_params:
  "th_graph (fst (submit_action (t, s))) = th_graph t" "th_key (fst (submit_action (t, s))) = th_key t"
  by (cases "th_pc t"; simp split: option.splits)+

lemma submit_action_frame:
  "gid \<noteq> g_id (th_graph t) \<Longrightarrow> graphs (snd (submit_action (t, s))) gid = graphs s gid"
  "th_key t \<noteq> Some k \<Longrightarrow> idempotency_keys (snd (submit_action (t, s))) k = idempotency_keys s k"
  by (cases "th_pc t"; auto simp: store_op_defs split: option.splits)+

lemma submit_action_thread:
  "(\<And>k. th_key t = Some k \<Longrightarrow> idempotency_keys s k = idempotency_keys s' k) \<Longrightarrow>
   fst (submit_action (t, s)) = fst (submit_action (t, s'))"
  by (cases "th_pc t"; cases "th_key t"; simp add: store_op_defs split: option.splits)

lemma submit_action_stores:
  assumes "independent t u"
  shows "snd (submit_action (u, snd (submit_action (t, s)))) = snd (submit_action (t, snd (submit_action (u, s))))"
  using assms
  by (cases "th_pc t"; cases "th_pc u"; cases "th_key t"; cases "th_key u";
      auto simp: independent_def store_op_defs fun_upd_twist split: option.splits)

lemma thread_step_alt:
  "thread_step i (ths, s) = (ths(i := fst (submit_action (ths i, s))), snd (submit_action (ths i, s)))"
  by (simp add: thread_step_def split: prod.splits)

lemma thread_step_commute:
  assumes "i \<noteq> j" and ind: "independent (ths i) (ths j)" "independent (ths j) (ths i)"
  shows "thread_step i (thread_step j (ths, s)) = thread_step j (thread_step i (ths, s))"
proof -
  have "fst (submit_action (ths i, snd (submit_action (ths j, s)))) = fst (submit_action (ths i, s))"
    using ind by (intro submit_action_thread submit_action_frame(2)) (auto simp: independent_def)
  moreover have "fst (submit_action (ths j, snd (submit_action (ths i, s)))) = fst (submit_action (ths j, s))"
    using ind by (intro submit_action_thread submit_action_frame(2)) (auto simp: independent_def)
  ultimately show ?thesis
    unfolding thread_step_alt fun_upd_other [OF assms(1)] fun_upd_other [OF assms(1) [symmetric]]
    by (simp only: submit_action_stores [OF ind(1)] fun_upd_twist [OF assms(1)])
qed

section \<open>Schedules\<close>

definition all_independent :: "nat set \<Rightarrow> submit_system \<Rightarrow> bool" where
  "all_independent I c \<longleftrightarrow> (\<forall>i \<in> I. \<forall>j \<in> I. i \<noteq> j \<longrightarrow> independent (fst c i) (fst c j))"

lemma thread_step_params:
  "th_graph (fst (thread_step i c) j) = th_graph (fst c j)" "th_key (fst (thread_step i c) j) = th_key (fst c j)"
  by (cases c; simp add: thread_step_alt submit_action_params del: submit_action.simps)+

lemma all_independent_step: "all_independent I c \<Longrightarrow> all_independent I (thread_step i c)"
  by (simp add: all_independent_def independent_def thread_step_params)

lemma run_schedule_permute:
  assumes "mset is = mset js" and "all_independent (set is) c"
  shows "run_schedule is c = run_schedule js c"
  unfolding run_schedule_def
proof (rule fold_permuted_eq [where P = "all_independent (set is)"])
  show "thread_step i (thread_step j c') = thread_step j (thread_step i c')"
    if "i \<in> set is" "j \<in> set is" "all_independent (set is) c'" for i j c'
    using that thread_step_commute [of i j "fst c'" "snd c'"]
    by (cases "i = j") (auto simp: all_independent_def)
qed (use assms in \<open>simp_all add: all_independent_step\<close>)

section \<open>One after the other\<close>

fun submit_in_turn :: "nat list \<Rightarrow> submit_system \<Rightarrow> submit_system" where
  "submit_in_turn [] c = c"
| "submit_in_turn (i # is) (ths, s) =
     (case executor_submit (th_graph (ths i)) (th_key (ths i)) s of
        (s', r) \<Rightarrow> submit_in_turn is (ths(i := (ths i)\<lparr>th_pc := Returned (projr r)\<rparr>), s'))"

lemma thread_step_power:
  "(thread_step i ^^ n) (ths, s) =
     (ths(i := fst ((submit_action ^^ n) (ths i, s))), snd ((submit_action ^^ n) (ths i, s)))"
proof (induction n)
  case (Suc n)
  then show ?case
    by (simp only: funpow.simps comp_apply thread_step_alt fun_upd_same fun_upd_upd prod.collapse)
qed simp

lemma submit_action_rest:
  assumes "th_pc t = AtCheck" and "3 \<le> n"
  shows "(submit_action ^^ n) (t, s) =
    (case executor_submit (th_graph t) (th_key t) s of (s', r) \<Rightarrow> (t\<lparr>th_pc := Returned (projr r)\<rparr>, s'))"
proof -
  have t: "t = \<lparr>th_graph = th_graph t, th_key = th_key t, th_pc = AtCheck\<rparr>" using assms(1) by (cases t) simp
  obtain s' r where sub: "executor_submit (th_graph t) (th_key t) s = (s', r)" by fastforce
  have upd: "t\<lparr>th_pc := pc\<rparr> = \<lparr>th_graph = th_graph t, th_key = th_key t, th_pc = pc\<rparr>" for pc by (cases t) simp
  have done3: "(submit_action ^^ 3) (t, s) = (t\<lparr>th_pc := Returned (projr r)\<rparr>, s')"
    using submit_action_alone [of "th_graph t" "th_key t" s, folded t] by (simp only: sub prod.case upd)
  have stay: "(submit_action ^^ m) (t\<lparr>th_pc := Returned gid\<rparr>, s') = (t\<lparr>th_pc := Returned gid\<rparr>, s')" for m gid
    by (induction m) simp_all
  have "submit_action ^^ n = (submit_action ^^ (n - 3)) \<circ> (submit_action ^^ 3)"
    using assms(2) by (simp only: funpow_add [symmetric] le_add_diff_inverse2)
  then show ?thesis by (simp only: comp_apply done3 stay sub prod.case)
qed

lemma run_schedule_blocks:
  assumes "distinct ord" and "\<forall>i \<in> set ord. th_pc (ths i) = AtCheck \<and> 3 \<le> n i"
  shows "run_schedule (concat (map (\<lambda>i. replicate (n i) i) ord)) (ths, s) = submit_in_turn ord (ths, s)"
  using assms
proof (induction ord arbitrary: ths s)
  case (Cons i ord)
  have rep: "fold thread_step (replicate m i) c = (thread_step i ^^ m) c" for m c
    by (induction m arbitrary: c) (simp_all add: funpow_swap1)
  obtain s' r where sub: "executor_submit (th_graph (ths i)) (th_key (ths i)) s = (s', r)" by fastforce
  have "(thread_step i ^^ n i) (ths, s) = (ths(i := (ths i)\<lparr>th_pc := Returned (projr r)\<rparr>), s')"
    using Cons.prems(2) by (simp add: thread_step_power submit_action_rest sub)
  moreover have "\<forall>j \<in> set ord. th_pc ((ths(i := (ths i)\<lparr>th_pc := Returned (projr r)\<rparr>)) j) = AtCheck \<and> 3 \<le> n j"
    using Cons.prems by auto
  ultimately show ?case
    using Cons.IH [of "ths(i := (ths i)\<lparr>th_pc := Returned (projr r)\<rparr>)" s'] Cons.prems(1)
    by (simp only: run_schedule_def list.map concat.simps fold_append comp_apply rep sub submit_in_turn.simps
        prod.case distinct.simps)
qed (simp add: run_schedule_def)

lemma mset_blocks:
  assumes "distinct ord" and "set ord = set is"
  shows "mset (concat (map (\<lambda>i. replicate (count_list is i) i) ord)) = mset is"
proof (rule multiset_eqI)
  fix x
  have "count (mset (concat (map (\<lambda>i. replicate (count_list is i) i) ord))) x =
      (if x \<in> set ord then count_list is x else 0)"
    using assms(1) by (induction ord) auto
  also have "\<dots> = count (mset is) x"
    using assms(2) by (auto simp: count_mset count_list_0_iff)
  finally show "count (mset (concat (map (\<lambda>i. replicate (count_list is i) i) ord))) x = count (mset is) x" .
qed

text \<open>
  C7: Concurrent submissions under pairwise different keys, or none, of graphs with different ids
  are serialisable: a schedule in which each of them acts at least three times, however it
  interleaves them, leaves the store and gives every caller the answer of running \<open>submit\<close> for
  them one after the other, in any order.
\<close>

theorem submits_serializable:
  assumes "all_independent (set is) (ths, s)"
    and "\<forall>i \<in> set is. th_pc (ths i) = AtCheck \<and> 3 \<le> count_list is i"
    and "distinct ord" and "set ord = set is"
  shows "run_schedule is (ths, s) = submit_in_turn ord (ths, s)"
proof -
  have "run_schedule is (ths, s) = run_schedule (concat (map (\<lambda>i. replicate (count_list is i) i) ord)) (ths, s)"
    by (rule run_schedule_permute [OF mset_blocks [OF assms(3,4), symmetric] assms(1)])
  also have "\<dots> = submit_in_turn ord (ths, s)"
    using assms(2,4) by (intro run_schedule_blocks [OF assms(3)]) simp
  finally show ?thesis .
qed

theorem submits_serializable_witness:
  "let ths = (\<lambda>i. \<lparr>th_graph = create_simple_graph (GraphId (of_nat i)) None,
         th_key = (if i = 0 then None else Some ''k''), th_pc = AtCheck\<rparr>)
   in run_schedule [0, 1, 1, 0, 1, 0] (ths, graph_store_new) = submit_in_turn [1, 0] (ths, graph_store_new)"
proof -
  let ?ths = "\<lambda>i :: nat. \<lparr>th_graph = create_simple_graph (GraphId (of_nat i)) None,
    th_key = (if i = 0 then None else Some ''k''), th_pc = AtCheck\<rparr>"
  have "all_independent (set [0, 1, 1, 0, 1, 0]) (?ths, graph_store_new)"
    by (simp add: all_independent_def independent_def core_defs)
  then show ?thesis
    unfolding Let_def by (rule submits_serializable) auto
qed

end
