(* ===== verification/PlaneSpec.thy ===== *)
theory PlaneSpec
  imports Control
begin

text \<open>
  What the control plane (\<open>kineplex-node/src/control.rs\<close> over \<open>kineplex-node/src/lib.rs\<close>)
  promises, as a small specification: nodes are free, busy with one graph, or down; a tenant has
  a number of submissions left; a submission is refused or granted a set of free nodes. The
  specification leaves open which free nodes are granted. The control plane refines it: every
  event, with the answer the caller sees, is a step of the specification. What is proved of the
  specification then holds of the code.
\<close>

section \<open>The specification\<close>

datatype slot = Free | Busy graph_id | Down

record plane =
  pl_nodes :: "node_id \<rightharpoonup> slot"
  pl_left :: "string \<rightharpoonup> nat"
  pl_auth :: bool
  pl_graphs :: "graph_id set"

datatype plane_label =
    Refused string bool
  | Granted string bool graph_id nat "node_id set"
  | CancelAnswered graph_id bool
  | NodeDown node_id graph_id "node_id set"
  | NodeUp node_id
  | NodeJoined node_id slot
  | TenantSet string nat
  | AuthSet bool

definition free_nodes :: "plane \<Rightarrow> node_id set" where
  "free_nodes p = {nid. pl_nodes p nid = Some Free}"

text \<open>As many free nodes as asked for, or all of them.\<close>

definition grantable :: "nat \<Rightarrow> plane \<Rightarrow> node_id set \<Rightarrow> bool" where
  "grantable k p A \<longleftrightarrow> finite A \<and> A \<subseteq> free_nodes p \<and> card A = min k (card (free_nodes p))"

definition occupy :: "graph_id \<Rightarrow> node_id set \<Rightarrow> plane \<Rightarrow> plane" where
  "occupy gid A p = p\<lparr>pl_nodes := (\<lambda>nid. if nid \<in> A then Some (Busy gid) else pl_nodes p nid)\<rparr>"

definition spend :: "string \<Rightarrow> plane \<Rightarrow> plane" where
  "spend t p = p\<lparr>pl_left := (\<lambda>u. if u = t then map_option (\<lambda>n. n - 1) (pl_left p t) else pl_left p u)\<rparr>"

definition take_down :: "node_id \<Rightarrow> plane \<Rightarrow> plane" where
  "take_down nid p = p\<lparr>pl_nodes := (\<lambda>n. if n = nid then map_option (\<lambda>_. Down) (pl_nodes p nid) else pl_nodes p n)\<rparr>"

inductive plane_step :: "plane_label \<Rightarrow> plane \<Rightarrow> plane \<Rightarrow> bool" where
  refused: "(pl_auth p \<and> \<not> cred) \<or> pl_left p t = Some 0 \<Longrightarrow> plane_step (Refused t cred) p p"
| granted: "(pl_auth p \<longrightarrow> cred) \<Longrightarrow> pl_left p t \<noteq> Some 0 \<Longrightarrow> grantable k p A \<Longrightarrow>
    plane_step (Granted t cred gid k A) p
      (occupy gid A (spend t p)\<lparr>pl_graphs := insert gid (pl_graphs p)\<rparr>)"
| cancel: "plane_step (CancelAnswered gid False) p p"
| down: "grantable 1 (take_down nid p) A \<Longrightarrow> plane_step (NodeDown nid gid A) p (occupy gid A (take_down nid p))"
| up: "plane_step (NodeUp nid) p (p\<lparr>pl_nodes := (pl_nodes p)(nid \<mapsto> Free)\<rparr>)"
| joined: "plane_step (NodeJoined nid sl) p (p\<lparr>pl_nodes := (pl_nodes p)(nid \<mapsto> sl)\<rparr>)"
| tenant: "plane_step (TenantSet t n) p (p\<lparr>pl_left := (pl_left p)(t \<mapsto> n)\<rparr>)"
| auth: "plane_step (AuthSet b) p (p\<lparr>pl_auth := b\<rparr>)"

inductive plane_run :: "plane_label list \<Rightarrow> plane \<Rightarrow> plane \<Rightarrow> bool" where
  stop: "plane_run [] p p"
| step: "plane_step l p p1 \<Longrightarrow> plane_run ls p1 p' \<Longrightarrow> plane_run (l # ls) p p'"

section \<open>Abstraction\<close>

fun slot_of :: "node_state \<Rightarrow> slot" where
  "slot_of Ready = Free"
| "slot_of (Executing gid) = Busy gid"
| "slot_of _ = Down"

definition cluster_slots :: "cluster \<Rightarrow> node_id \<rightharpoonup> slot" where
  "cluster_slots c = (\<lambda>nid. map_option (\<lambda>n. slot_of (cn_state n)) (nodes c nid))"

definition abs_plane :: "node_control \<Rightarrow> plane" where
  "abs_plane s = \<lparr>pl_nodes = cluster_slots (nc_cluster s),
     pl_left = (\<lambda>t. map_option (\<lambda>q. unat (tq_max_concurrent_graphs q) - unat (tq_active_graphs q)) (nc_tenant_quotas s t)),
     pl_auth = nc_auth_enabled s, pl_graphs = dom (nc_graphs s)\<rparr>"

text \<open>The label of an event, with the answer the code gives.\<close>

fun observe :: "(time \<Rightarrow> int \<Rightarrow> time) \<Rightarrow> control_event \<Rightarrow> node_control \<Rightarrow> plane_label" where
  "observe pm (EvSubmit gid now es req) s =
     (case snd (control_submit pm gid now es req s) of
        Inl _ \<Rightarrow> Refused (sr_tenant_id req) (sr_credentials req \<noteq> None)
      | Inr r \<Rightarrow> Granted (sr_tenant_id req) (sr_credentials req \<noteq> None) (ar_graph_id r)
          (unat (unwrap_or (sc_required_nodes (sr_config req)) 1)) (set (ar_allocated_nodes r)))"
| "observe pm (EvCancel gid) s = CancelAnswered gid (\<not> isl (snd (control_cancel (\<lambda>_. []) gid s)))"
| "observe pm (EvNodeFailure es nid gid) s = NodeDown nid gid (set (projr (snd (handle_node_failure es nid gid s))))"
| "observe pm (EvNodeRejoin nid) s = NodeUp nid"
| "observe pm (EvRegisterNode n) s = NodeJoined (cn_id n) (slot_of (cn_state n))"
| "observe pm (EvRegisterTenant q) s =
     TenantSet (tq_tenant_id q) (unat (tq_max_concurrent_graphs q) - unat (tq_active_graphs q))"
| "observe pm (EvSetAuth b) s = AuthSet b"

lemma abs_plane_simps [simp]:
  "pl_nodes (abs_plane s) = cluster_slots (nc_cluster s)" "pl_auth (abs_plane s) = nc_auth_enabled s"
  "pl_graphs (abs_plane s) = dom (nc_graphs s)"
  "pl_left (abs_plane s) t =
     map_option (\<lambda>q. unat (tq_max_concurrent_graphs q) - unat (tq_active_graphs q)) (nc_tenant_quotas s t)"
  by (simp_all add: abs_plane_def)

lemma slot_of_Free [simp]: "slot_of st = Free \<longleftrightarrow> st = Ready"
  by (cases st) simp_all

section \<open>Simulation\<close>

lemma free_nodes_ready: "free_nodes p = {nid. \<exists>n. nodes c nid = Some n \<and> cn_state n = Ready}"
  if "pl_nodes p = cluster_slots c"
  using that by (auto simp: free_nodes_def cluster_slots_def)

lemma allocation_grantable:
  assumes "iterates es (nodes c)" "cluster_wf c" "pl_nodes p = cluster_slots c"
  shows "grantable (unat k) p (set (allocate_nodes es k))"
  unfolding grantable_def free_nodes_ready [OF assms(3)]
  using set_get_ready_nodes [OF assms(1,2)] length_allocate_nodes [OF assms(1,2), of k]
    distinct_card [OF distinct_allocate_nodes [OF assms(1,2)], of k]
  by (auto simp: allocate_nodes_def dest: in_set_takeD)

lemma cluster_slots_claim:
  assumes "\<forall>nid \<in> set ks. nodes c nid \<noteq> None"
  shows "cluster_slots (cl.claim ks (Executing gid) c) =
    (\<lambda>nid. if nid \<in> set ks then Some (Busy gid) else cluster_slots c nid)"
proof
  fix nid
  show "cluster_slots (cl.claim ks (Executing gid) c) nid =
      (if nid \<in> set ks then Some (Busy gid) else cluster_slots c nid)"
    using assms cl.claim_marks [of nid ks c _ "Executing gid"] cl.claim_untouched [of nid ks "Executing gid" c]
    by (cases "nid \<in> set ks") (fastforce simp: cluster_slots_def)+
qed

lemma allocated_known:
  assumes "iterates es (nodes c)" "cluster_wf c"
  shows "\<forall>nid \<in> set (allocate_nodes es k). nodes c nid \<noteq> None"
  using set_get_ready_nodes [OF assms] by (auto simp: allocate_nodes_def dest: in_set_takeD)

lemma cluster_slots_update:
  "cluster_slots (update_node_state nid st c) =
     (\<lambda>n. if n = nid then map_option (\<lambda>_. slot_of st) (cluster_slots c nid) else cluster_slots c n)"
  by (auto simp: cluster_slots_def update_node_state_def fun_eq_iff split: option.splits)

lemma cluster_slots_rejoin: "cluster_slots (handle_rejoin nid c) = (cluster_slots c)(nid \<mapsto> Free)"
  by (auto simp: cluster_slots_def handle_rejoin_def fun_eq_iff split: option.splits)

lemma cluster_slots_register:
  "cluster_slots (register_node n c) = (cluster_slots c)(cn_id n \<mapsto> slot_of (cn_state n))"
  by (auto simp: cluster_slots_def register_node_def fun_eq_iff)

lemma refused_submission:
  assumes "quotas_ok s" "admit_request req s = None"
  shows "(nc_auth_enabled s \<and> sr_credentials req = None) \<or> pl_left (abs_plane s) (sr_tenant_id req) = Some 0"
  using assms by (cases rule: validate_submission_cases [of s req]) (auto simp: admit_request_def word_le_nat_alt)

lemma admitted_submission:
  assumes "admit_request req s = Some s1"
  shows "nc_auth_enabled s \<longrightarrow> sr_credentials req \<noteq> None"
    and "pl_left (abs_plane s) (sr_tenant_id req) \<noteq> Some 0"
    and "pl_left (abs_plane s1) = pl_left (spend (sr_tenant_id req) (abs_plane s))"
    and "nc_auth_enabled s1 = nc_auth_enabled s"
  using assms
  by (cases rule: validate_submission_cases [of s req];
      auto simp: admit_request_def spend_def fun_eq_iff word_less_nat_alt unat_inc_below)+

lemma submit_simulates:
  assumes "control_inv s" "iterates es (nodes (nc_cluster s))"
  shows "plane_step (observe pm (EvSubmit gid now es req) s) (abs_plane s)
    (abs_plane (fst (control_submit pm gid now es req s)))"
proof (cases "admit_request req s")
  case None
  then obtain e where "control_submit pm gid now es req s = (s, Inl e)" using control_submit_rejected by blast
  moreover have "(pl_auth (abs_plane s) \<and> \<not> sr_credentials req \<noteq> None) \<or> pl_left (abs_plane s) (sr_tenant_id req) = Some 0"
    using refused_submission [OF _ None] assms(1) by (simp add: control_inv_def)
  ultimately show ?thesis by (simp del: abs_plane_simps) (rule plane_step.refused, simp)
next
  case (Some s1)
  let ?k = "unwrap_or (sc_required_nodes (sr_config req)) 1"
  let ?al = "allocate_nodes es ?k"
  have wf: "cluster_wf (nc_cluster s)" using assms(1) by (simp add: control_inv_def)
  note adm = admitted_submission [OF Some]
  have slots: "cluster_slots (cl.claim ?al (Executing gid) (nc_cluster s)) =
      (\<lambda>nid. if nid \<in> set ?al then Some (Busy gid) else cluster_slots (nc_cluster s) nid)"
    by (rule cluster_slots_claim [OF allocated_known [OF assms(2) wf]])
  have "abs_plane (fst (control_submit pm gid now es req s)) =
      occupy gid (set ?al) (spend (sr_tenant_id req) (abs_plane s))\<lparr>pl_graphs := insert gid (pl_graphs (abs_plane s))\<rparr>"
    using adm(3,4) slots
    by (simp add: control_submit_accepted [OF Some] Let_def occupy_def abs_plane_def spend_def cong: if_cong)
  moreover have "grantable (unat ?k) (abs_plane s) (set ?al)"
    by (rule allocation_grantable [OF assms(2) wf]) simp
  ultimately show ?thesis
    using adm(1,2) plane_step.granted [of "abs_plane s" "sr_credentials req \<noteq> None" "sr_tenant_id req" "unat ?k" "set ?al" gid]
    by (simp add: control_submit_accepted [OF Some] Let_def del: abs_plane_simps(4))
qed

lemma failure_simulates:
  assumes "control_inv s"
    and "iterates es (nodes (update_node_state nid (NodeFailed ''Node failed'') (nc_cluster s)))"
  shows "plane_step (observe pm (EvNodeFailure es nid gid) s) (abs_plane s)
    (abs_plane (fst (handle_node_failure es nid gid s)))"
proof -
  let ?c = "update_node_state nid (NodeFailed ''Node failed'') (nc_cluster s)" and ?al = "allocate_nodes es 1"
  have wf: "cluster_wf ?c" using assms(1) by (simp add: control_inv_def update_node_state_wf)
  have down: "pl_nodes (take_down nid (abs_plane s)) = cluster_slots ?c"
    by (simp add: take_down_def cluster_slots_update cong: if_cong)
  have "abs_plane (fst (handle_node_failure es nid gid s)) = occupy gid (set ?al) (take_down nid (abs_plane s))"
    using cluster_slots_claim [OF allocated_known [OF assms(2) wf], of 1 gid]
    by (simp add: handle_node_failure_def Let_def mark_executing_claim occupy_def take_down_def abs_plane_def
        cluster_slots_update cong: if_cong)
  moreover have "grantable 1 (take_down nid (abs_plane s)) (set ?al)"
    using allocation_grantable [OF assms(2) wf down, of 1] by simp
  ultimately show ?thesis
    using plane_step.down [of nid "abs_plane s" "set ?al" gid] by (simp add: handle_node_failure_def Let_def)
qed

lemma control_step_simulates:
  assumes "reach control_init (control_step pm) s" and "event_ok ev s"
  shows "plane_step (observe pm ev s) (abs_plane s) (abs_plane (apply_event pm ev s))"
proof -
  have inv: "control_inv s" using assms(1) by (rule nc.reach_inv)
  show ?thesis
  proof (cases ev)
    case (EvCancel gid)
    then show ?thesis using plane_step.cancel [of gid "abs_plane s"] by (simp add: control_cancel_pending [OF inv])
  next
    case (EvNodeRejoin nid)
    have "abs_plane (handle_node_rejoin nid s) = (abs_plane s)\<lparr>pl_nodes := (pl_nodes (abs_plane s))(nid \<mapsto> Free)\<rparr>"
      by (simp add: abs_plane_def handle_node_rejoin_def cluster_slots_rejoin)
    then show ?thesis by (simp add: EvNodeRejoin plane_step.up del: abs_plane_simps)
  next
    case (EvRegisterNode n)
    have "abs_plane (s\<lparr>nc_cluster := register_node n (nc_cluster s)\<rparr>) =
        (abs_plane s)\<lparr>pl_nodes := (pl_nodes (abs_plane s))(cn_id n \<mapsto> slot_of (cn_state n))\<rparr>"
      by (simp add: abs_plane_def cluster_slots_register)
    then show ?thesis by (simp add: EvRegisterNode plane_step.joined del: abs_plane_simps)
  next
    case (EvRegisterTenant q)
    have "abs_plane (register_tenant q s) = (abs_plane s)\<lparr>pl_left := (pl_left (abs_plane s))(tq_tenant_id q \<mapsto>
        unat (tq_max_concurrent_graphs q) - unat (tq_active_graphs q))\<rparr>"
      by (simp add: abs_plane_def register_tenant_def fun_eq_iff)
    then show ?thesis by (simp add: EvRegisterTenant plane_step.tenant del: abs_plane_simps)
  next
    case (EvSetAuth b)
    have "abs_plane (set_auth_enabled b s) = (abs_plane s)\<lparr>pl_auth := b\<rparr>"
      by (simp add: abs_plane_def set_auth_enabled_def)
    then show ?thesis by (simp add: EvSetAuth plane_step.auth del: abs_plane_simps)
  qed (use assms(2) submit_simulates [OF inv] failure_simulates [OF inv] in simp_all)
qed

text \<open>Runs of the code, with their labels.\<close>

fun run_ok :: "(time \<Rightarrow> int \<Rightarrow> time) \<Rightarrow> control_event list \<Rightarrow> node_control \<Rightarrow> bool" where
  "run_ok pm [] s \<longleftrightarrow> True"
| "run_ok pm (ev # evs) s \<longleftrightarrow> event_ok ev s \<and> run_ok pm evs (apply_event pm ev s)"

fun run_labels :: "(time \<Rightarrow> int \<Rightarrow> time) \<Rightarrow> control_event list \<Rightarrow> node_control \<Rightarrow> plane_label list" where
  "run_labels pm [] s = []"
| "run_labels pm (ev # evs) s = observe pm ev s # run_labels pm evs (apply_event pm ev s)"

lemma reach_event:
  "reach control_init (control_step pm) s \<Longrightarrow> event_ok ev s \<Longrightarrow> reach control_init (control_step pm) (apply_event pm ev s)"
  by (blast intro: reach_step control_step.event)

text \<open>
  C3: The control plane refines its specification: from every reachable state, every run of events,
  each labelled with the answer its caller sees, is a run of the specification with these
  labels between the abstractions of the first and the last state.
\<close>

theorem control_refines_plane:
  assumes "reach control_init (control_step pm) s" and "run_ok pm evs s"
  shows "plane_run (run_labels pm evs s) (abs_plane s) (abs_plane (fold (apply_event pm) evs s))"
  using assms
proof (induction evs arbitrary: s)
  case (Cons ev evs)
  then show ?case
    using control_step_simulates [OF Cons.prems(1)] reach_event [OF Cons.prems(1)]
    by (fastforce intro: plane_run.step)
qed (simp add: plane_run.stop)

text \<open>A run for the witnesses: a submission takes the only node, and is then cancelled in vain.\<close>

abbreviation sample_run :: "control_event list" where
  "sample_run \<equiv> [EvSubmit (GraphId 7) 0 sample_order (tenant_request ''t''), EvCancel (GraphId 7)]"

lemma sample_run_facts:
  "reach control_init (control_step (+)) sample_control" "run_ok (+) sample_run sample_control"
  "run_labels (+) sample_run sample_control =
     [Granted ''t'' True (GraphId 7) 1 {NodeId ''n''}, CancelAnswered (GraphId 7) False]"
proof -
  show "reach control_init (control_step (+)) sample_control"
    by (rule reach_init) (auto simp: control_init_def sample_control_def)
  show "run_ok (+) sample_run sample_control" using sample_cluster_order by (simp add: cluster_order_def)
  show "run_labels (+) sample_run sample_control =
     [Granted ''t'' True (GraphId 7) 1 {NodeId ''n''}, CancelAnswered (GraphId 7) False]"
    by (simp add: control_submit_def validate_defs sample_defs allocate_nodes_def get_ready_nodes_def
        unwrap_or_def Let_def control_cancel_def mark_executing_def create_distributed_graph_def)
qed

theorem control_refines_plane_witness:
  "plane_run [Granted ''t'' True (GraphId 7) 1 {NodeId ''n''}, CancelAnswered (GraphId 7) False]
     (abs_plane sample_control) (abs_plane (fold (apply_event (+)) sample_run sample_control))"
  using control_refines_plane [OF sample_run_facts(1,2)] by (simp only: sample_run_facts(3))

section \<open>Capacity\<close>

text \<open>Consequences of the specification: who is busy stays busy, and grants use up free nodes.\<close>

fun touches :: "node_id \<Rightarrow> plane_label \<Rightarrow> bool" where
  "touches nid (NodeDown n gid A) \<longleftrightarrow> n = nid"
| "touches nid (NodeUp n) \<longleftrightarrow> n = nid"
| "touches nid (NodeJoined n sl) \<longleftrightarrow> n = nid"
| "touches nid l \<longleftrightarrow> False"

fun adds_node :: "plane_label \<Rightarrow> bool" where
  "adds_node (NodeUp n) \<longleftrightarrow> True"
| "adds_node (NodeJoined n sl) \<longleftrightarrow> True"
| "adds_node l \<longleftrightarrow> False"

fun granted_nodes :: "plane_label \<Rightarrow> node_id set" where
  "granted_nodes (Granted t cred gid k A) = A"
| "granted_nodes (NodeDown nid gid A) = A"
| "granted_nodes l = {}"

lemma occupy_free: "free_nodes (occupy gid A p) = free_nodes p - A"
  by (auto simp: free_nodes_def occupy_def)

lemma frame_free [simp]: "free_nodes (spend t p) = free_nodes p" "free_nodes (p\<lparr>pl_graphs := G\<rparr>) = free_nodes p"
  "free_nodes (p\<lparr>pl_left := L\<rparr>) = free_nodes p" "free_nodes (p\<lparr>pl_auth := b\<rparr>) = free_nodes p"
  "free_nodes (take_down nid p) = free_nodes p - {nid}"
  by (auto simp: free_nodes_def spend_def take_down_def)

lemma grant_capacity:
  assumes "grantable k p A"
  shows "card (free_nodes p - A) + card A = card (free_nodes p)"
proof (cases "finite (free_nodes p)")
  case True
  then show ?thesis using assms by (simp add: grantable_def card_Diff_subset card_mono)
next
  case False
  then have "A = {}" using assms by (auto simp: grantable_def)
  then show ?thesis by simp
qed

lemma plane_step_capacity:
  assumes "plane_step l p p'" "\<not> adds_node l"
  shows "card (free_nodes p') + card (granted_nodes l) \<le> card (free_nodes p)"
  using assms
proof (cases rule: plane_step.cases)
  case (granted cred t k A gid)
  then show ?thesis using grant_capacity [of k p A] by (simp add: occupy_free)
next
  case (down nid A gid)
  then show ?thesis
    using grant_capacity [of 1 "take_down nid p" A] card_Diff1_le [of "free_nodes p" nid] by (simp add: occupy_free)
qed simp_all

lemma busy_not_grantable: "pl_nodes p nid = Some (Busy g) \<Longrightarrow> grantable k p A \<Longrightarrow> nid \<notin> A"
  by (auto simp: grantable_def free_nodes_def)

lemma plane_step_busy:
  assumes "plane_step l p p'" "\<not> touches nid l" "pl_nodes p nid = Some (Busy g)"
  shows "pl_nodes p' nid = Some (Busy g)"
  using assms
proof (cases rule: plane_step.cases)
  case (granted cred t k A gid)
  then show ?thesis using busy_not_grantable [OF assms(3)] assms(3) by (auto simp: occupy_def spend_def cong: if_cong)
next
  case (down n A gid)
  then have "pl_nodes (take_down n p) nid = Some (Busy g)" using assms(2,3) by (simp add: take_down_def)
  then show ?thesis using busy_not_grantable down by (simp add: occupy_def)
qed simp_all

lemma abs_plane_busy:
  "pl_nodes (abs_plane s) nid = Some (Busy gid) \<longleftrightarrow>
     map_option cn_state (nodes (nc_cluster s) nid) = Some (Executing gid)"
proof -
  have "slot_of st = Busy gid \<longleftrightarrow> st = Executing gid" for st by (cases st) simp_all
  then show ?thesis by (auto simp: cluster_slots_def)
qed

text \<open>
  C11: Capacity is never given back. In a run without rejoining or newly registered nodes, the nodes
  handed to callers, by submissions and after failures together, are at most the nodes that were
  ready at the start, and what is ready at the end is at most the rest; and a node that executes
  a graph executes it at the end, unless it failed, whatever was cancelled or submitted since.
\<close>

theorem capacity_never_released:
  assumes "reach control_init (control_step pm) s" and "run_ok pm evs s"
    and "\<forall>l \<in> set (run_labels pm evs s). \<not> adds_node l"
  shows "card (free_nodes (abs_plane (fold (apply_event pm) evs s)))
      + (\<Sum>l \<leftarrow> run_labels pm evs s. card (granted_nodes l)) \<le> card (free_nodes (abs_plane s))
    \<and> (map_option cn_state (nodes (nc_cluster s) nid) = Some (Executing gid) \<longrightarrow>
        (\<forall>l \<in> set (run_labels pm evs s). \<not> touches nid l) \<longrightarrow>
        map_option cn_state (nodes (nc_cluster (fold (apply_event pm) evs s)) nid) = Some (Executing gid))"
  using assms
proof (induction evs arbitrary: s)
  case (Cons ev evs)
  have ok: "event_ok ev s" "run_ok pm evs (apply_event pm ev s)" using Cons.prems(2) by simp_all
  note step = control_step_simulates [OF Cons.prems(1) ok(1)]
  note ih = Cons.IH [OF reach_event [OF Cons.prems(1) ok(1)] ok(2)]
  have "card (free_nodes (abs_plane (apply_event pm ev s))) + card (granted_nodes (observe pm ev s))
      \<le> card (free_nodes (abs_plane s))"
    using Cons.prems(3) by (intro plane_step_capacity [OF step]) simp
  then show ?case
    using ih Cons.prems(3) plane_step_busy [OF step, of nid gid] unfolding abs_plane_busy by fastforce
qed simp

theorem capacity_never_released_witness:
  "card (free_nodes (abs_plane (fold (apply_event (+)) sample_run sample_control))) + 1
    \<le> card (free_nodes (abs_plane sample_control))"
proof -
  have "\<forall>l \<in> set (run_labels (+) sample_run sample_control). \<not> adds_node l"
    unfolding sample_run_facts(3) by simp
  from capacity_never_released [OF sample_run_facts(1,2) this] show ?thesis
    unfolding sample_run_facts(3) by simp
qed

end
