(* ===== verification/StepAccuracy.thy ===== *)
theory StepAccuracy
  imports StepControl
begin

text \<open>
  The numerical accuracy of the adaptive step (\<open>AdaptiveStepController::compute\<close>,
  \<open>kineplex-core/src/geometry.rs\<close>): the step size and the integral that ten rounded double
  operations compute are compared with the PID law over the rationals. Each operation adds the
  rounding error of its own magnitude; the clamps add none.
\<close>

section \<open>Errors of the operations\<close>

text \<open>A finite double within \<open>d\<close> of an exact value.\<close>

definition approx :: "f64 \<Rightarrow> rat \<Rightarrow> rat \<Rightarrow> bool" where
  "approx x q d \<longleftrightarrow> finite_f64 x \<and> \<bar>fval x - q\<bar> \<le> d"

lemma approxD: "approx x q d \<Longrightarrow> finite_f64 x" "approx x q d \<Longrightarrow> \<bar>fval x - q\<bar> \<le> d"
  by (simp_all add: approx_def)

lemma approx_exact: "finite_f64 x \<Longrightarrow> approx x (fval x) 0"
  by (simp add: approx_def)

lemma round_rat_near:
  assumes "\<bar>q\<bar> \<le> 2 powi k" "- 1000 \<le> k"
  shows "\<bar>round_rat q - q\<bar> \<le> 2 powi (k - 53)"
proof (cases "q = 0")
  case False
  have "2 powi ilog2 \<bar>q\<bar> \<le> (2 :: rat) powi k"
    by (rule order.trans [OF ilog2_bounds(1) assms(1)]) (use False in simp)
  then have "ulp_exp q - 1 \<le> k - 53" using assms(2) by (simp add: ulp_exp_def)
  then have "2 powi (ulp_exp q - 1) \<le> (2 :: rat) powi (k - 53)" by (simp only: powi_le_iff)
  with round_rat_error [of q] show ?thesis by (rule order.trans)
qed simp

lemma approx_fround:
  assumes "\<bar>q\<bar> \<le> 2 powi k" "- 1000 \<le> k" "k \<le> 1023"
  shows "approx (fround s q) q (2 powi (k - 53))"
proof -
  have m: "mag_le k (fround s q)" using assms by (intro mag_fround) simp_all
  have "2 powi k < (2 :: rat) powi 1024" using assms(3) by (simp only: powi_less_iff)
  also have "\<dots> = 2 ^ 1024" using powi_int [of 1024] by (simp only: of_nat_numeral)
  finally have k: "2 powi k < (2 :: rat) ^ 1024" .
  have "\<bar>round_rat q\<bar> \<le> 2 powi k"
    using round_rat_mono [of "- (2 powi k)" q] round_rat_mono [of q "2 powi k"] assms(1,2)
    by (simp add: round_rat_power abs_le_iff)
  then have "fval (fround s q) = round_rat q" using k by (intro fround_finite(2)) (rule le_less_trans)
  then show ?thesis using round_rat_near [OF assms(1,2)] magD(1) [OF m] by (simp add: approx_def)
qed

lemma approx_trans: "approx x q d \<Longrightarrow> \<bar>q - q'\<bar> \<le> e \<Longrightarrow> e + d \<le> d' \<Longrightarrow> approx x q' d'"
  unfolding approx_def by linarith

text \<open>
  A sum, and a product with a gain of at most 1, add the rounding error of a result of
  magnitude at most \<open>2 powi k\<close> to the errors of their operands.
\<close>

lemma approx_add:
  assumes "approx x p d" "approx y q e" "\<bar>p + q\<bar> + (d + e) \<le> 2 powi k" "0 \<le> k" "k \<le> 1023"
  shows "approx (f_add x y) (p + q) (d + e + 2 powi (k - 53))"
proof -
  have err: "\<bar>(fval x + fval y) - (p + q)\<bar> \<le> d + e"
    using assms(1,2) unfolding approx_def by linarith
  then have "\<bar>fval x + fval y\<bar> \<le> 2 powi k" using assms(3) by linarith
  then have "approx (f_add x y) (fval x + fval y) (2 powi (k - 53))"
    using assms by (simp add: f_add_finite approxD(1) approx_fround)
  then show ?thesis using err by (rule approx_trans) simp
qed

lemma approx_neg: "approx x q d \<Longrightarrow> approx (f_neg x) (- q) d"
  unfolding approx_def by (simp add: abs_minus_commute)

lemma approx_sub:
  assumes "approx x p d" "approx y q e" "\<bar>p - q\<bar> + (d + e) \<le> 2 powi k" "0 \<le> k" "k \<le> 1023"
  shows "approx (f_sub x y) (p - q) (d + e + 2 powi (k - 53))"
  using approx_add [OF assms(1) approx_neg [OF assms(2)], of k] assms(3-5) by (simp add: f_sub_def)

lemma approx_gain:
  assumes "gain_ok g" "approx y q e" "\<bar>q\<bar> + e \<le> 2 powi k" "0 \<le> k" "k \<le> 1023"
  shows "approx (f_mul g y) (fval g * q) (e + 2 powi (k - 53))"
proof -
  have g: "finite_f64 g" "0 < fval g" "fval g \<le> 1"
    using assms(1) by (auto simp: gain_ok_def mag_le_def)
  have scale: "\<bar>fval g * r\<bar> \<le> \<bar>r\<bar>" for r
    using mult_right_mono [OF g(3) abs_ge_zero [of r]] g(2) by (simp add: abs_mult)
  have "\<bar>fval y - q\<bar> \<le> e" using assms(2) by (rule approxD)
  then have "\<bar>fval g * fval y - fval g * q\<bar> \<le> e"
    using scale [of "fval y - q"] by (simp add: algebra_simps)
  moreover have "\<bar>fval g * fval y\<bar> \<le> 2 powi k"
    using scale [of "fval y"] \<open>\<bar>fval y - q\<bar> \<le> e\<close> assms(3) by linarith
  then have "approx (f_mul g y) (fval g * fval y) (2 powi (k - 53))"
    using assms(2,4,5) g(1) by (simp add: f_mul_finite approxD(1) approx_fround)
  ultimately show ?thesis by (rule approx_trans [OF _ _ order.refl, rotated])
qed

text \<open>Clamping an approximation between exact limits does not move it away.\<close>

lemma approx_clamp:
  assumes "f_clamp x lo hi = Some y" "approx x q d" "finite_f64 lo" "finite_f64 hi"
  shows "approx y (max (fval lo) (min (fval hi) q)) d"
proof -
  have "fval lo \<le> fval hi"
    using assms(1,3,4) by (simp add: f_clamp_def f_le_finite split: if_splits)
  moreover have "y = (if fval x < fval lo then lo else if fval hi < fval x then hi else x)"
    using assms by (auto simp: f_clamp_def f_lt_finite approxD(1) split: if_splits)
  ultimately show ?thesis
    using assms(2-4) unfolding approx_def max_def min_def by (cases "fval x < fval lo"; cases "fval hi < fval x") (simp; linarith)+
qed

section \<open>The PID law over the rationals\<close>

definition pid_integral :: "rat \<Rightarrow> rat \<Rightarrow> rat" where
  "pid_integral i x = max (- 100) (min 100 (i - x))"

definition pid_step :: "step_controller \<Rightarrow> rat \<Rightarrow> rat" where
  "pid_step c x = max (fval (epsilon_min c)) (min (fval (epsilon_max c))
     (fval (epsilon c) + fval (kp c) * (- x) + fval (ki c) * pid_integral (fval (sc_integral c)) x
       + fval (kd c) * (- x - fval (prev_error c))))"

text \<open>
  The error budget, in units of \<open>2 powi (-43)\<close>, for inputs of magnitude at most 1024: the negated
  change 1, the proportional term 3, the integral 3 and its term 3 1/8, the difference 5 and the
  derivative term 9; the three sums 7, 14 1/8 and 31 1/8, below 32.
\<close>

lemma control_error_accurate:
  assumes "mag_le 10 x"
  shows "approx (control_error x) (- fval x) (2 powi (- 43))"
  using approx_sub [OF approx_exact approx_exact, of "Fin 0" x 10] magD [OF assms]
  by (simp add: control_error_def)

lemma pid_integral_bound: "\<bar>pid_integral i x\<bar> \<le> 100"
  by (simp add: pid_integral_def)

lemma gain_scales:
  assumes "gain_ok g"
  shows "\<bar>fval g * q\<bar> \<le> \<bar>q\<bar>"
proof -
  have "0 < fval g" "fval g \<le> 1" using assms by (auto simp: gain_ok_def mag_le_def)
  then show ?thesis using mult_right_mono [of "fval g" 1 "\<bar>q\<bar>"] by (simp add: abs_mult)
qed

lemma integral_accurate:
  assumes "controller_ok c" "mag_le 10 x"
    and i: "f_clamp (f_add (sc_integral c) (control_error x)) (flit (- 100)) (flit 100) = Some i"
  shows "approx i (pid_integral (fval (sc_integral c)) (fval x)) (3 * 2 powi (- 43))"
proof -
  have I: "finite_f64 (sc_integral c)" "\<bar>fval (sc_integral c)\<bar> \<le> 100"
    using assms(1) by (auto simp: controller_ok_def flits f_le_iff abs_le_iff)
  have "approx (f_add (sc_integral c) (control_error x)) (fval (sc_integral c) - fval x) (3 * 2 powi (- 43))"
    using approx_add [OF approx_exact [OF I(1)] control_error_accurate [OF assms(2)], of 11]
      I(2) magD(2) [OF assms(2)] by simp
  from approx_clamp [OF i this] show ?thesis by (simp add: pid_integral_def flits)
qed

lemma raw_step_accurate:
  assumes c: "controller_ok c" "mag_le 10 (epsilon c)" "mag_le 10 (prev_error c)" and x: "mag_le 10 x"
    and i: "approx i j (3 * 2 powi (- 43))" "\<bar>j\<bar> \<le> 100"
  shows "approx (raw_step i x c)
    (fval (epsilon c) + fval (kp c) * (- fval x) + fval (ki c) * j + fval (kd c) * (- fval x - fval (prev_error c)))
    (249 / 8 * 2 powi (- 43))"
proof -
  have g: "gain_ok (kp c)" "gain_ok (ki c)" "gain_ok (kd c)"
    using c(1) by (simp_all add: controller_ok_def gains_ok_def)
  note err = control_error_accurate [OF x]
  have m: "\<bar>fval (epsilon c)\<bar> \<le> 1024" "\<bar>fval (prev_error c)\<bar> \<le> 1024" "\<bar>fval x\<bar> \<le> 1024"
    using magD(2) [OF c(2)] magD(2) [OF c(3)] magD(2) [OF x] by simp_all
  have diff: "\<bar>- fval x - fval (prev_error c)\<bar> \<le> 2048" using m by linarith
  have t: "\<bar>fval (kp c) * (- fval x)\<bar> \<le> 1024" "\<bar>fval (ki c) * j\<bar> \<le> 100"
      "\<bar>fval (kd c) * (- fval x - fval (prev_error c))\<bar> \<le> 2048"
    using gain_scales [OF g(1), of "- fval x"] gain_scales [OF g(2), of j]
      gain_scales [OF g(3), of "- fval x - fval (prev_error c)"] m(3) i(2) diff by linarith+
  have s: "\<bar>fval (epsilon c) + fval (kp c) * (- fval x)\<bar> \<le> 2048"
      "\<bar>fval (epsilon c) + fval (kp c) * (- fval x) + fval (ki c) * j\<bar> \<le> 2148"
      "\<bar>fval (epsilon c) + fval (kp c) * (- fval x) + fval (ki c) * j
        + fval (kd c) * (- fval x - fval (prev_error c))\<bar> \<le> 4196"
    using m(1) t by linarith+
  have p: "approx (f_mul (kp c) (control_error x)) (fval (kp c) * (- fval x)) (3 * 2 powi (- 43))"
    using approx_gain [OF g(1) err, of 11] m(3) by simp
  have it: "approx (f_mul (ki c) i) (fval (ki c) * j) (25 / 8 * 2 powi (- 43))"
    using approx_gain [OF g(2) i(1), of 7] i(2) by simp
  have d1: "approx (f_sub (control_error x) (prev_error c)) (- fval x - fval (prev_error c)) (5 * 2 powi (- 43))"
    using approx_sub [OF err approx_exact [OF magD(1) [OF c(3)]], of 12] diff by simp
  have d: "approx (f_mul (kd c) (f_sub (control_error x) (prev_error c)))
      (fval (kd c) * (- fval x - fval (prev_error c))) (9 * 2 powi (- 43))"
    using approx_gain [OF g(3) d1, of 12] diff by simp
  have s1: "approx (f_add (epsilon c) (f_mul (kp c) (control_error x)))
      (fval (epsilon c) + fval (kp c) * (- fval x)) (7 * 2 powi (- 43))"
    using approx_add [OF approx_exact [OF magD(1) [OF c(2)]] p, of 12] s(1) by simp
  have s2: "approx (f_add (f_add (epsilon c) (f_mul (kp c) (control_error x))) (f_mul (ki c) i))
      (fval (epsilon c) + fval (kp c) * (- fval x) + fval (ki c) * j) (113 / 8 * 2 powi (- 43))"
    using approx_add [OF s1 it, of 12] s(2) by simp
  show ?thesis
    unfolding raw_step_def using approx_add [OF s2 d, of 13] s(3) by simp
qed

text \<open>
  C17: The step the controller computes in doubles is the PID law's: with positive gains of at most
  1, ordered limits of magnitude at most \<open>2 powi 1000\<close>, step size, previous error and curvature change of magnitude at most 1024 and an
  integral within its windup bounds, the call does not panic, the step size it stores and returns is
  within \<open>2 powi (-38)\<close> (about \<open>4e-12\<close>) of the exact clamped step of the law, the integral within
  \<open>2 powi (-41)\<close> of the exact clamped integral, the stored error within \<open>2 powi (-43)\<close> of the negated
  change, and gains and limits are unchanged.
\<close>

theorem compute_accurate:
  assumes "controller_ok c" and "mag_le 10 (epsilon c)" and "mag_le 10 (prev_error c)" and "mag_le 10 x"
  shows "\<exists>i err e. compute x c = Some (c\<lparr>prev_error := err, sc_integral := i, epsilon := e\<rparr>, e)
    \<and> finite_f64 e \<and> \<bar>fval e - pid_step c (fval x)\<bar> \<le> 2 powi (- 38)
    \<and> finite_f64 i \<and> \<bar>fval i - pid_integral (fval (sc_integral c)) (fval x)\<bar> \<le> 2 powi (- 41)
    \<and> finite_f64 err \<and> \<bar>fval err - (- fval x)\<bar> \<le> 2 powi (- 43)"
proof -
  have ok: "f_le (epsilon_min c) (epsilon_max c)" "finite_f64 (epsilon_min c)" "finite_f64 (epsilon_max c)"
    using assms(1) by (auto simp: controller_ok_def dest: magD)
  obtain i where i: "f_clamp (f_add (sc_integral c) (control_error x)) (flit (- 100)) (flit 100) = Some i"
    using f_clamp_ordered [OF windup_limits] by blast
  obtain e where e: "f_clamp (raw_step i x c) (epsilon_min c) (epsilon_max c) = Some e"
    using f_clamp_ordered [OF ok(1)] by blast
  note ia = integral_accurate [OF assms(1,4) i]
  have "approx e (pid_step c (fval x)) (249 / 8 * 2 powi (- 43))"
    unfolding pid_step_def
    using approx_clamp [OF e raw_step_accurate [OF assms ia pid_integral_bound] ok(2,3)] .
  moreover have "compute x c = Some (c\<lparr>prev_error := control_error x, sc_integral := i, epsilon := e\<rparr>, e)"
    unfolding compute_Some_iff using i e by blast
  ultimately show ?thesis
    using ia control_error_accurate [OF assms(4)] unfolding approx_def by fastforce
qed

theorem compute_accurate_witness:
  "let c = step_controller_new (Fin (1 / 2)) in
   \<exists>e c'. compute (Fin (1 / 4)) c = Some (c', e) \<and> \<bar>fval e - 11 / 40\<bar> < 1 / 10 ^ 9"
proof -
  let ?c = "step_controller_new (Fin (1 / 2))"
  have ok: "controller_ok ?c" by (rule controller_new_ok) (simp add: small_moderate)
  have m: "mag_le 10 (epsilon ?c)" "mag_le 10 (prev_error ?c)" "mag_le 10 (Fin (1 / 4))"
    by (simp_all add: step_controller_new_def mag_le_def)
  have "\<bar>pid_step ?c (1 / 4) - 11 / 40\<bar> < 1 / 10 ^ 10"
    by (simp add: pid_step_def pid_integral_def step_controller_new_def flits)
  moreover obtain c' e where "compute (Fin (1 / 4)) ?c = Some (c', e)"
    and "\<bar>fval e - pid_step ?c (1 / 4)\<bar> \<le> 2 powi (- 38)"
    using compute_accurate [OF ok m] by auto
  moreover have "(2 :: rat) powi (- 38) + 1 / 10 ^ 10 < 1 / 10 ^ 9" by simp
  ultimately have "\<bar>fval e - 11 / 40\<bar> < 1 / 10 ^ 9" by linarith
  then show ?thesis using \<open>compute (Fin (1 / 4)) ?c = Some (c', e)\<close> unfolding Let_def by blast
qed

end
