(* ===== verification/Membership.thy ===== *)
theory Membership
  imports Gossip Routing
begin

text \<open>
  Membership and routing together: the routes a router (\<open>kineplex-net/src/routing.rs\<close>) has after
  it was updated from the alive members of the gossip protocol (\<open>kineplex-net/src/gossip.rs\<close>).
  Every alive member is routed directly to its latest address; a member that fails or leaves
  keeps the route it had.
\<close>

definition gossip_routes :: "(net_node_id \<times> node_info) list \<Rightarrow> gossip_protocol \<Rightarrow> (net_node_id \<times> network_address) list" where
  "gossip_routes es p = map (\<lambda>n. (ni_id n, ni_address n)) (get_alive_members es p)"

definition alive_member :: "gossip_protocol \<Rightarrow> net_node_id \<Rightarrow> node_info \<Rightarrow> bool" where
  "alive_member p k n \<longleftrightarrow> gp_members p k = Some n \<and> is_alive n \<and> k \<noteq> gp_self_node p"

lemma get_alive_members_set:
  assumes "members_ok (gp_members p)" "iterates es (gp_members p)"
  shows "n \<in> set (get_alive_members es p) \<longleftrightarrow> alive_member p (ni_id n) n"
proof -
  have "n \<in> snd ` set es \<longleftrightarrow> gp_members p (ni_id n) = Some n"
  proof
    assume "n \<in> snd ` set es"
    then obtain k where "(k, n) \<in> set es" by force
    then have "gp_members p k = Some n" using iterates_lookup [OF assms(2)] by simp
    then show "gp_members p (ni_id n) = Some n" using assms(1) by (simp add: members_ok_def)
  next
    assume "gp_members p (ni_id n) = Some n"
    then have "(ni_id n, n) \<in> set es" using iterates_lookup [OF assms(2)] by simp
    then show "n \<in> snd ` set es" by force
  qed
  then show ?thesis by (auto simp: get_alive_members_def alive_member_def)
qed

lemma gossip_routes_distinct:
  assumes "members_ok (gp_members p)" "iterates es (gp_members p)"
  shows "distinct (map fst (gossip_routes es p))"
proof -
  have ids: "map ni_id (map snd es) = map fst es"
    using iterates_lookup [OF assms(2)] assms(1) by (auto simp: members_ok_def)
  have "distinct (map ni_id (map snd es))" unfolding ids using assms(2) by (rule iterates_distinct)
  then have "distinct (map ni_id (get_alive_members es p))"
    unfolding get_alive_members_def by (rule distinct_map_filter)
  then show ?thesis by (simp add: gossip_routes_def comp_def)
qed

lemma gossip_routes_lookup:
  assumes "members_ok (gp_members p)" "iterates es (gp_members p)"
  shows "map_of (rev (gossip_routes es p)) k = Some addr \<longleftrightarrow> (\<exists>n. alive_member p k n \<and> ni_address n = addr)"
proof -
  note d = gossip_routes_distinct [OF assms]
  have "map_of (rev (gossip_routes es p)) k = Some addr \<longleftrightarrow> (k, addr) \<in> set (gossip_routes es p)"
    using d by (simp add: map_of_eq_Some_iff rev_map [symmetric])
  also have "\<dots> \<longleftrightarrow> (\<exists>n. alive_member p k n \<and> ni_address n = addr)"
  proof -
    have "alive_member p k n \<Longrightarrow> ni_id n = k" for n using assms(1) by (simp add: alive_member_def members_ok_def)
    then show ?thesis using get_alive_members_set [OF assms] by (auto simp: gossip_routes_def image_iff) metis
  qed
  finally show ?thesis .
qed

text \<open>
  C30: After an update from the alive members every alive member other than the node itself is routed
  directly to the address gossip has for it, and every other route is as before. So nothing
  removes the route of a member that fails or leaves: also after the next update the router
  still sends to it directly, in whatever orders the tables are iterated.
\<close>

theorem routes_follow_membership:
  assumes "members_ok (gp_members p)" and "iterates es (gp_members p)" and "rt_self_node r = gp_self_node p"
    and "r1 = update_routes (gossip_routes es p) r"
    and "p' \<in> {handle_failure k p, handle_leave k p}" and "iterates es' (gp_members p')"
    and "r2 = update_routes (gossip_routes es' p') r1"
  shows "(\<forall>n. alive_member p t n \<longrightarrow> calculate_route t r1 = Some t \<and> get_address t r1 = Some (ni_address n))
    \<and> ((\<nexists>n. alive_member p t n) \<longrightarrow> get_route t r1 = get_route t r)
    \<and> (\<forall>n. alive_member p k n \<longrightarrow> (\<nexists>n'. alive_member p' k n') \<and> calculate_route k r2 = Some k)"
proof -
  have ok': "members_ok (gp_members p')" using assms(5) members_ok_ops [OF assms(1)] by auto
  have self: "rt_self_node r1 = gp_self_node p" using assms(3,4) by simp
  have one: "calculate_route u r1 = Some u \<and> get_address u r1 = Some (ni_address n)" if "alive_member p u n" for u n
  proof -
    have "map_of (rev (gossip_routes es p)) u = Some (ni_address n)"
      using that gossip_routes_lookup [OF assms(1,2)] by blast
    then show ?thesis using that assms(3) by (simp add: assms(4) update_routes_direct alive_member_def)
  qed
  have other: "get_route u (update_routes (gossip_routes fs q) r0) = get_route u r0"
    if "members_ok (gp_members q)" "iterates fs (gp_members q)" "\<nexists>n. alive_member q u n" for u fs q r0
  proof -
    have "map_of (rev (gossip_routes fs q)) u = None"
      using gossip_routes_lookup [OF that(1,2), of u] that(3) by (metis not_None_eq)
    then show ?thesis by (simp add: get_route_def update_routes_lookup)
  qed
  have gone: "\<nexists>n'. alive_member p' k n'"
    using assms(5) by (auto simp: alive_member_def gossip_defs is_alive_def split: option.splits)
  then have "get_route k r2 = get_route k r1" using other [OF ok' assms(6)] assms(7) by simp
  then have "calculate_route k r2 = calculate_route k r1" by (simp add: calculate_route_def get_route_def)
  then show ?thesis using one gone other [OF assms(1,2), of t r] assms(4) by auto
qed

theorem routes_follow_membership_witness:
  "let n = node_info_new 5 (NetNodeId 2) (network_address_new ''b'' 2);
       p = register_node n \<lparr>gp_self_node = NetNodeId 1, gp_members = Map.empty, gp_pending_events = [], gp_protocol_version = ''1.0.0''\<rparr>;
       r1 = update_routes (gossip_routes [(NetNodeId 2, n)] p) (router_new (NetNodeId 1));
       r2 = update_routes (gossip_routes [] (handle_leave (NetNodeId 2) p)) r1
   in calculate_route (NetNodeId 2) r2 = Some (NetNodeId 2)"
proof -
  let ?n = "node_info_new 5 (NetNodeId 2) (network_address_new ''b'' 2)"
  let ?p = "register_node ?n \<lparr>gp_self_node = NetNodeId 1, gp_members = Map.empty, gp_pending_events = [], gp_protocol_version = ''1.0.0''\<rparr>"
  have 1: "members_ok (gp_members ?p)" "iterates [(NetNodeId 2, ?n)] (gp_members ?p)"
    "iterates [] (gp_members (handle_leave (NetNodeId 2) ?p))"
    by (simp_all add: members_ok_def gossip_defs node_info_new_def iterates_def fun_eq_iff)
  have self: "rt_self_node (router_new (NetNodeId 1)) = gp_self_node ?p" by (simp add: router_new_def gossip_defs)
  have "alive_member ?p (NetNodeId 2) ?n"
    by (simp add: alive_member_def gossip_defs node_info_new_def is_alive_def)
  with routes_follow_membership [OF 1(1,2) self refl _ 1(3) refl, of "NetNodeId 2"] show ?thesis
    unfolding Let_def by blast
qed

end
