(* ===== verification/GossipNet.thy ===== *)
theory GossipNet
  imports Gossip
begin

text \<open>
  A network of gossiping members (\<open>kineplex-net/src/gossip.rs\<close>): every member runs its own
  \<open>GossipProtocol\<close> and now and then sends all it knows (\<open>get_all_members\<close> in a
  \<open>GossipMessage\<close>) to others, which process it (\<open>process_gossip\<close>). The repository leaves the
  sending and the transport to the caller; here messages may be delayed, lost, repeated,
  reordered and delivered to several members. Proved: what a member holds after any such run is
  the newest of what the members it has heard of, directly or through others, held at the start.
\<close>

section \<open>The network\<close>

text \<open>A message once sent stays available, so its delivery may be late, repeated, or never happen.\<close>

record gossip_net =
  gn_peers :: "net_node_id \<Rightarrow> gossip_protocol"
  gn_sent :: "gossip_message list"

datatype net_event =
    SendTable net_node_id time "(net_node_id \<times> node_info) list"
  | Deliver nat net_node_id

fun net_step :: "net_event \<Rightarrow> gossip_net \<Rightarrow> gossip_net" where
  "net_step (SendTable i now es) s =
     s\<lparr>gn_sent := gn_sent s @ [with_members (get_all_members es) (gossip_message_new now (gp_self_node (gn_peers s i)))]\<rparr>"
| "net_step (Deliver n j) s =
     (if n < length (gn_sent s)
      then s\<lparr>gn_peers := (gn_peers s)(j := process_gossip (gn_sent s ! n) (gn_peers s j))\<rparr> else s)"

text \<open>A table is sent in an iteration order of the table.\<close>

fun net_event_ok :: "net_event \<Rightarrow> gossip_net \<Rightarrow> bool" where
  "net_event_ok (SendTable i now es) s = iterates es (gp_members (gn_peers s i))"
| "net_event_ok (Deliver n j) s = True"

fun net_run :: "net_event list \<Rightarrow> gossip_net \<Rightarrow> gossip_net option" where
  "net_run [] s = Some s"
| "net_run (e # evs) s = (if net_event_ok e s then net_run evs (net_step e s) else None)"

section \<open>Who has heard of whom\<close>

text \<open>
  The members whose initial table a member, or a message, has heard of: a member starts with
  itself, a message carries what its sender had heard, a delivery adds what the message carries.
\<close>

type_synonym hearsay = "(net_node_id \<Rightarrow> net_node_id set) \<times> net_node_id set list"

fun hear :: "net_event \<Rightarrow> hearsay \<Rightarrow> hearsay" where
  "hear (SendTable i now es) (h, ms) = (h, ms @ [h i])"
| "hear (Deliver n j) (h, ms) = (if n < length ms then (h(j := h j \<union> ms ! n), ms) else (h, ms))"

definition heard :: "net_event list \<Rightarrow> net_node_id \<Rightarrow> net_node_id set" where
  "heard evs = fst (fold hear evs (\<lambda>i. {i}, []))"

text \<open>What the members of a set knew of \<open>k\<close> at the start.\<close>

definition initial_entries :: "gossip_net \<Rightarrow> net_node_id set \<Rightarrow> net_node_id \<Rightarrow> node_info set" where
  "initial_entries s A k = {n. \<exists>i \<in> A. gp_members (gn_peers s i) k = Some n}"

lemma initial_entries_Un: "initial_entries s (A \<union> B) k = initial_entries s A k \<union> initial_entries s B k"
  by (auto simp: initial_entries_def)

lemma newest_Un:
  assumes "newest r A" "newest t B" "newest u ({n. r = Some n} \<union> {n. t = Some n})"
  shows "newest u (A \<union> B)"
  using assms by (cases r; cases t; cases u) (fastforce simp: newest_def)+

text \<open>A message that holds a table, in whatever order.\<close>

definition holds_table :: "gossip_message \<Rightarrow> (net_node_id \<rightharpoonup> node_info) \<Rightarrow> bool" where
  "holds_table g m \<longleftrightarrow> members_ok m \<and> set (gm_members g) = ran m"

lemma holds_table_lookup: "holds_table g m \<Longrightarrow> {n \<in> set (gm_members g). ni_id n = k} = {n. m k = Some n}"
  by (auto simp: holds_table_def members_ok_def ran_def)

lemma iterates_ran: "iterates es m \<Longrightarrow> snd ` set es = ran m"
  by (auto simp: ran_def iterates_lookup image_iff) (metis snd_conv)

text \<open>The invariant of a run from \<open>s0\<close>.\<close>

definition net_inv :: "gossip_net \<Rightarrow> gossip_net \<Rightarrow> hearsay \<Rightarrow> bool" where
  "net_inv s0 s hs \<longleftrightarrow>
     (\<forall>j. members_ok (gp_members (gn_peers s j))
        \<and> gp_pending_events (gn_peers s j) = gp_pending_events (gn_peers s0 j)
        \<and> (\<forall>k. newest (gp_members (gn_peers s j) k) (initial_entries s0 (fst hs j) k)))
   \<and> length (snd hs) = length (gn_sent s)
   \<and> (\<forall>n < length (gn_sent s). \<exists>m. holds_table (gn_sent s ! n) m
        \<and> (\<forall>k. newest (m k) (initial_entries s0 (snd hs ! n) k)))"

lemma net_inv_start:
  assumes "\<forall>i. members_ok (gp_members (gn_peers s i))" "gn_sent s = []"
  shows "net_inv s s (\<lambda>i. {i}, [])"
  using assms by (auto simp: net_inv_def newest_def initial_entries_def split: option.splits)

lemma net_inv_send:
  assumes inv: "net_inv s0 s (h, ms)" and es: "iterates es (gp_members (gn_peers s i))"
  shows "net_inv s0 (net_step (SendTable i now es) s) (hear (SendTable i now es) (h, ms))"
proof -
  let ?g = "with_members (get_all_members es) (gossip_message_new now (gp_self_node (gn_peers s i)))"
  have "holds_table ?g (gp_members (gn_peers s i))"
    using inv iterates_ran [OF es] by (simp add: holds_table_def net_inv_def with_members_def get_all_members_def)
  then show ?thesis
    using inv by (auto simp: net_inv_def nth_append less_Suc_eq)
qed

text \<open>Processing a message that holds a table leaves the newer entry of the two tables.\<close>

lemma process_table_newest:
  assumes "holds_table g m" "newest (gp_members p k) A" "newest (m k) B"
  shows "newest (gp_members (process_gossip g p) k) (A \<union> B)"
proof (rule newest_Un [OF assms(2,3)])
  show "newest (gp_members (process_gossip g p) k) ({n. gp_members p k = Some n} \<union> {n. m k = Some n})"
    using fold_merge_newest [of "gm_members g" "gp_members p" k] holds_table_lookup [OF assms(1), of k]
    by (simp add: process_gossip_def candidates_def)
qed

lemma net_inv_deliver:
  assumes inv: "net_inv s0 s (h, ms)"
  shows "net_inv s0 (net_step (Deliver n j) s) (hear (Deliver n j) (h, ms))"
proof (cases "n < length (gn_sent s)")
  case True
  obtain m where m: "holds_table (gn_sent s ! n) m" "\<And>k. newest (m k) (initial_entries s0 (ms ! n) k)"
    using inv True by (auto simp: net_inv_def)
  let ?p = "process_gossip (gn_sent s ! n) (gn_peers s j)"
  have "newest (gp_members ?p k) (initial_entries s0 (h j \<union> ms ! n) k)" for k
    unfolding initial_entries_Un using inv m(2) by (intro process_table_newest [OF m(1)]) (simp_all add: net_inv_def)
  moreover have "members_ok (gp_members ?p)" using inv by (intro members_ok_ops) (simp add: net_inv_def)
  moreover have "gp_pending_events ?p = gp_pending_events (gn_peers s j)" by (simp add: process_gossip_def)
  ultimately show ?thesis using inv True by (simp add: net_inv_def)
next
  case False
  then show ?thesis using inv by (simp add: net_inv_def)
qed

lemma net_inv_run:
  "net_run evs s = Some s' \<Longrightarrow> net_inv s0 s hs \<Longrightarrow> net_inv s0 s' (fold hear evs hs)"
proof (induction evs arbitrary: s hs)
  case (Cons e evs)
  obtain h ms where hs: "hs = (h, ms)" by fastforce
  have ok: "net_event_ok e s" "net_run evs (net_step e s) = Some s'"
    using Cons.prems(1) by (auto split: if_splits)
  have "net_inv s0 (net_step e s) (hear e hs)"
  proof (cases e)
    case (SendTable i now es)
    with ok(1) Cons.prems(2) show ?thesis unfolding hs by (auto simp del: net_step.simps hear.simps intro: net_inv_send)
  next
    case (Deliver n j)
    with Cons.prems(2) show ?thesis unfolding hs by (auto simp del: net_step.simps hear.simps intro: net_inv_deliver)
  qed
  from Cons.IH [OF ok(2) this] show ?case by simp
qed simp

section \<open>What a member holds after a run\<close>

lemma net_run_newest:
  assumes "\<forall>i. members_ok (gp_members (gn_peers s i))" "gn_sent s = []" "net_run evs s = Some s'"
  shows "newest (gp_members (gn_peers s' j) k) (initial_entries s (heard evs j) k)"
    and "gp_pending_events (gn_peers s' j) = gp_pending_events (gn_peers s j)"
    and "members_ok (gp_members (gn_peers s' j))"
  using net_inv_run [OF assms(3) net_inv_start [OF assms(1,2)]] by (simp_all add: net_inv_def heard_def)

lemma initial_entries_same_id:
  "\<forall>i. members_ok (gp_members (gn_peers s i)) \<Longrightarrow> a \<in> initial_entries s A k \<Longrightarrow> ni_id a = k"
  by (auto simp: initial_entries_def members_ok_def)

lemma same_hearsay_agrees:
  assumes "\<forall>i. members_ok (gp_members (gn_peers s i))" "gn_sent s = []" "net_run evs s = Some s'"
    and same: "heard evs j = heard evs j'" and con: "consistent (\<Union>i. ran (gp_members (gn_peers s i)))"
  shows "gp_members (gn_peers s' j) = gp_members (gn_peers s' j')"
proof
  fix k
  let ?C = "initial_entries s (heard evs j) k"
  have "?C \<subseteq> (\<Union>i. ran (gp_members (gn_peers s i)))" by (auto simp: initial_entries_def ran_def)
  then have "consistent ?C" using con unfolding consistent_def by blast
  moreover have "\<forall>a \<in> ?C. \<forall>b \<in> ?C. ni_id a = ni_id b"
    using initial_entries_same_id [OF assms(1)] by metis
  ultimately show "gp_members (gn_peers s' j) k = gp_members (gn_peers s' j') k"
    using net_run_newest(1) [OF assms(1-3), of j k] net_run_newest(1) [OF assms(1-3), of j' k] same
    by (intro newest_unique) simp_all
qed

text \<open>
  C18: Gossip disseminates: after any run of sends and deliveries, late, lost, repeated or
  reordered, a member holds, for every node, an entry with the latest heartbeat among those held
  at the start by the members it has heard of, directly or through others, and no entry when none
  of them had one; no membership event is raised. Two members that have heard of the same
  members hold the same table, provided the entries at the start are consistent.
\<close>

theorem gossip_disseminates:
  assumes "\<forall>i. members_ok (gp_members (gn_peers s i))" and "gn_sent s = []" and "net_run evs s = Some s'"
  shows "newest (gp_members (gn_peers s' j) k) {n. \<exists>i \<in> heard evs j. gp_members (gn_peers s i) k = Some n}
    \<and> gp_pending_events (gn_peers s' j) = gp_pending_events (gn_peers s j)
    \<and> (heard evs j = heard evs j' \<longrightarrow> consistent (\<Union>i. ran (gp_members (gn_peers s i))) \<longrightarrow>
        gp_members (gn_peers s' j) = gp_members (gn_peers s' j'))"
  using net_run_newest(1) [OF assms, unfolded initial_entries_def] net_run_newest(2) [OF assms]
    same_hearsay_agrees [OF assms]
  by blast

text \<open>A round through a hub: everyone sends to the hub, the hub sends to everyone.\<close>

definition hub_round ::
  "net_node_id \<Rightarrow> net_node_id list \<Rightarrow> (net_node_id \<Rightarrow> (net_node_id \<times> node_info) list) \<Rightarrow>
   (net_node_id \<times> node_info) list \<Rightarrow> time \<Rightarrow> net_event list" where
  "hub_round hub ps es hub_es now =
     map (\<lambda>i. SendTable i now (es i)) ps @ map (\<lambda>n. Deliver n hub) [0..<length ps]
       @ SendTable hub now hub_es # map (Deliver (length ps)) ps"

lemma hear_sends:
  "fold hear (map (\<lambda>i. SendTable i now (es i)) ps) (h, ms) = (h, ms @ map h ps)"
  by (induction ps arbitrary: ms) simp_all

lemma hear_gather:
  "N \<le> length ms \<Longrightarrow>
   fold hear (map (\<lambda>n. Deliver n hub) [0..<N]) (h, ms) = (h(hub := h hub \<union> \<Union> (set (take N ms))), ms)"
  by (induction N) (auto simp: take_Suc_conv_app_nth fun_eq_iff)

lemma hear_broadcast:
  "n < length ms \<Longrightarrow>
   fold hear (map (Deliver n) ps) (h, ms) = ((\<lambda>j. if j \<in> set ps then h j \<union> ms ! n else h j), ms)"
  by (induction ps arbitrary: h) (auto simp: fun_eq_iff)

lemma heard_hub_round:
  assumes "hub \<in> set ps" "j \<in> set ps"
  shows "heard (hub_round hub ps es hub_es now) j = set ps"
proof -
  let ?ms = "map (\<lambda>i. {i}) ps"
  have "fold hear (map (\<lambda>i. SendTable i now (es i)) ps @ map (\<lambda>n. Deliver n hub) [0..<length ps]) (\<lambda>i. {i}, [])
      = ((\<lambda>i. {i})(hub := set ps), ?ms)"
    using hear_gather [of "length ps" ?ms hub "\<lambda>i. {i}"] assms(1)
    by (auto simp: hear_sends fun_eq_iff)
  then have "fold hear (hub_round hub ps es hub_es now) (\<lambda>i. {i}, [])
      = fold hear (map (Deliver (length ps)) ps) ((\<lambda>i. {i})(hub := set ps), ?ms @ [set ps])"
    by (simp add: hub_round_def)
  also have "\<dots> = ((\<lambda>j. if j \<in> set ps then ((\<lambda>i. {i})(hub := set ps)) j \<union> (?ms @ [set ps]) ! length ps
      else ((\<lambda>i. {i})(hub := set ps)) j), ?ms @ [set ps])"
    by (rule hear_broadcast) simp
  finally show ?thesis
    using assms(2) by (auto simp: heard_def nth_append)
qed

text \<open>
  One round of two messages per member is enough for agreement, and then everyone
  holds the newest of what anyone held.
\<close>

corollary hub_round_agrees:
  assumes "\<forall>i. members_ok (gp_members (gn_peers s i))" "gn_sent s = []"
    and "net_run (hub_round hub ps es hub_es now) s = Some s'"
    and "hub \<in> set ps" "j \<in> set ps" "j' \<in> set ps" "consistent (\<Union>i. ran (gp_members (gn_peers s i)))"
  shows "gp_members (gn_peers s' j) = gp_members (gn_peers s' j')"
    and "newest (gp_members (gn_peers s' j) k) {n. \<exists>i \<in> set ps. gp_members (gn_peers s i) k = Some n}"
proof -
  have "newest (gp_members (gn_peers s' j) k) (initial_entries s (set ps) k)" if "j \<in> set ps" for j k
    using net_run_newest(1) [OF assms(1-3)] heard_hub_round [OF assms(4) that] by metis
  note new = this
  show "newest (gp_members (gn_peers s' j) k) {n. \<exists>i \<in> set ps. gp_members (gn_peers s i) k = Some n}"
    using new [OF assms(5)] by (simp add: initial_entries_def)
  show "gp_members (gn_peers s' j) = gp_members (gn_peers s' j')"
    using same_hearsay_agrees [OF assms(1-3)] heard_hub_round [OF assms(4)] assms(5-7) by metis
qed

theorem gossip_disseminates_witness:
  "let a = NetNodeId 1; b = NetNodeId 2; c = NetNodeId 3;
       s = \<lparr>gn_peers = gossip_protocol_new 5, gn_sent = []\<rparr>;
       own = (\<lambda>i. node_info_new 5 i (network_address_new ''localhost'' 0));
       evs = [SendTable a 6 [(a, own a)], Deliver 0 b, SendTable b 7 [(b, own b), (a, own a)], Deliver 1 c, Deliver 1 a, Deliver 1 b]
   in \<exists>s'. net_run evs s = Some s' \<and> gp_members (gn_peers s' a) = gp_members (gn_peers s' b)
    \<and> gp_members (gn_peers s' c) a = Some (own a)"
proof -
  let ?a = "NetNodeId 1" and ?b = "NetNodeId 2" and ?c = "NetNodeId 3"
  let ?s = "\<lparr>gn_peers = gossip_protocol_new 5, gn_sent = []\<rparr>"
  let ?own = "\<lambda>i. node_info_new 5 i (network_address_new ''localhost'' 0)"
  let ?evs = "[SendTable ?a 6 [(?a, ?own ?a)], Deliver 0 ?b, SendTable ?b 7 [(?b, ?own ?b), (?a, ?own ?a)],
    Deliver 1 ?c, Deliver 1 ?a, Deliver 1 ?b]"
  have own: "gp_members (gossip_protocol_new 5 i) = [i \<mapsto> ?own i]" for i by (simp add: gossip_protocol_new_def)
  have ok: "\<forall>i. members_ok (gp_members (gn_peers ?s i))" by (simp add: members_ok_new)
  have id: "ni_id (?own i) = i" for i by (simp add: node_info_new_def)
  have it: "iterates [(?b, ?own ?b), (?a, ?own ?a)] [?b \<mapsto> ?own ?b, ?a \<mapsto> ?own ?a]"
    by (auto simp: iterates_def)
  have "net_run ?evs ?s \<noteq> None"
    using it by (simp add: own id process_gossip_def with_members_def get_all_members_def merge_member_def)
      (simp add: iterates_def)
  then obtain s' where run: "net_run ?evs ?s = Some s'" by blast
  have con: "consistent (\<Union>i. ran (gp_members (gn_peers ?s i)))"
    by (auto simp: consistent_def own) (simp add: node_info_new_def)
  have h: "heard ?evs ?a = {?a, ?b}" "heard ?evs ?b = {?a, ?b}" "heard ?evs ?c = {?a, ?b, ?c}"
    by (auto simp: heard_def)
  note dis = gossip_disseminates [OF ok _ run]
  have "gp_members (gn_peers s' ?a) = gp_members (gn_peers s' ?b)"
    using dis [of ?a ?a ?b] h con by simp
  moreover have "newest (gp_members (gn_peers s' ?c) ?a) {?own ?a}"
  proof -
    have "{n. \<exists>i \<in> heard ?evs ?c. gp_members (gn_peers ?s i) ?a = Some n} = {?own ?a}"
      by (auto simp: own h simp del: One_nat_def)
    with dis [of ?c ?a ?c] show ?thesis by simp
  qed
  then have "gp_members (gn_peers s' ?c) ?a = Some (?own ?a)" by (auto simp: newest_def split: option.splits)
  ultimately show ?thesis using run by (simp only: Let_def) blast
qed

end
