(* ===== verification/WasmThreads.thy ===== *)
theory WasmThreads
  imports WasmRuntime
begin

text \<open>
  The tenant limit (\<open>TenantResourceManager\<close> of \<open>kineplex-core/src/wasm.rs\<close>) under concurrent
  callers. A caller asks \<open>can_execute\<close> and, on \<open>true\<close>, calls \<open>record_execution_start\<close>: two
  critical sections, between which other callers act; executions end at any time. Proved: with
  \<open>k\<close> callers a tenant is never more than \<open>k - 1\<close> executions over its limit, so not at all with
  one caller, and \<open>k\<close> callers can be that much over.
\<close>

section \<open>Callers\<close>

text \<open>A caller is idle, or has been told it may start an execution of a tenant.\<close>

type_synonym tenant_system = "(nat \<Rightarrow> string option) \<times> tenant_resource_manager"

datatype tenant_move = Check nat string | Start nat | Finish string

text \<open>A start that overflows the counter panics and changes nothing.\<close>

fun tenant_act :: "tenant_move \<Rightarrow> tenant_system \<Rightarrow> tenant_system" where
  "tenant_act (Check i t) (cs, m) =
     (if cs i = None \<and> can_execute t m = Inr True then (cs(i := Some t), m) else (cs, m))"
| "tenant_act (Start i) (cs, m) =
     (case cs i of
        None \<Rightarrow> (cs, m)
      | Some t \<Rightarrow> (cs(i := None), case record_execution_start True t m of None \<Rightarrow> m | Some m' \<Rightarrow> m'))"
| "tenant_act (Finish t) (cs, m) = (cs, record_execution_end t m)"

fun callers_below :: "nat \<Rightarrow> tenant_move \<Rightarrow> bool" where
  "callers_below k (Check i t) = (i < k)"
| "callers_below k (Start i) = True"
| "callers_below k (Finish t) = True"

section \<open>The bound\<close>

definition pending :: "nat \<Rightarrow> (nat \<Rightarrow> string option) \<Rightarrow> string \<Rightarrow> nat" where
  "pending k cs t = card {i. i < k \<and> cs i = Some t}"

definition overshoot_inv :: "nat \<Rightarrow> (string \<rightharpoonup> tenant_quota) \<Rightarrow> tenant_system \<Rightarrow> bool" where
  "overshoot_inv k qs c \<longleftrightarrow> rm_quotas (snd c) = qs \<and> (\<forall>i. k \<le> i \<longrightarrow> fst c i = None)
     \<and> (\<forall>t q. qs t = Some q \<longrightarrow>
          unat (active_count (snd c) t) + pending k (fst c) t \<le> unat (tq_max_concurrent q) + (k - 1))"

lemma pending_check:
  assumes "i < k" "cs i = None"
  shows "pending k (cs(i := Some t)) t' = (if t' = t then Suc (pending k cs t) else pending k cs t')"
    and "pending k cs t < k"
proof -
  show "pending k (cs(i := Some t)) t' = (if t' = t then Suc (pending k cs t) else pending k cs t')"
  proof (cases "t' = t")
    case True
    have eq: "{j. j < k \<and> (cs(i := Some t)) j = Some t} = insert i {j. j < k \<and> cs j = Some t}"
      using assms by auto
    have "card (insert i {j. j < k \<and> cs j = Some t}) = Suc (card {j. j < k \<and> cs j = Some t})"
      using assms(2) by (intro card_insert_disjoint) auto
    then show ?thesis by (simp only: pending_def True eq if_True refl)
  next
    case False
    then have eq: "{j. j < k \<and> (cs(i := Some t)) j = Some t'} = {j. j < k \<and> cs j = Some t'}"
      using assms by auto
    show ?thesis using False by (simp only: pending_def eq if_False)
  qed
  have "i \<in> {..<k} - {j. j < k \<and> cs j = Some t}" using assms by simp
  then have "{j. j < k \<and> cs j = Some t} \<subset> {..<k}" by blast
  from psubset_card_mono [OF finite_lessThan this] show "pending k cs t < k" by (simp add: pending_def)
qed

lemma pending_start:
  assumes "i < k" "cs i = Some t"
  shows "pending k cs t' = (if t' = t then Suc (pending k (cs(i := None)) t) else pending k (cs(i := None)) t')"
  using pending_check(1) [OF assms(1), of "cs(i := None)" t t'] assms(2) by (simp add: fun_upd_idem)

lemma can_execute_room:
  "can_execute t m = Inr True \<Longrightarrow> rm_quotas m t = Some q \<Longrightarrow> unat (active_count m t) < unat (tq_max_concurrent q)"
  by (simp add: can_execute_def word_le_nat_alt split: option.splits)

lemma start_count:
  assumes "record_execution_start True t m = Some m'"
  shows "rm_quotas m' = rm_quotas m"
    and "unat (active_count m' t') = (if t' = t then Suc (unat (active_count m t)) else unat (active_count m t'))"
proof -
  obtain n where n: "add_chk True (active_count m t) 1 = Some n"
    and m': "m' = m\<lparr>rm_active_executions := (rm_active_executions m)(t \<mapsto> n)\<rparr>"
    using assms by (auto simp: record_execution_start_def)
  have "unat (active_count m t) + unat (1 :: u32) < 2 ^ LENGTH(32)"
    using n by (auto simp: add_chk_def split: if_splits)
  from add_chk_no_overflow(1) [OF this, of True] add_chk_no_overflow(2) [OF this] n
  have "unat n = Suc (unat (active_count m t))" by simp
  then show "rm_quotas m' = rm_quotas m"
    and "unat (active_count m' t') = (if t' = t then Suc (unat (active_count m t)) else unat (active_count m t'))"
    by (simp_all add: m' active_count_def)
qed

lemma end_count_le: "unat (active_count (record_execution_end t m) t') \<le> unat (active_count m t')"
  using unat_minus_one [of "active_count m t"] by (auto simp: end_count)

lemma tenant_act_inv:
  assumes "overshoot_inv k qs c" "callers_below k mv"
  shows "overshoot_inv k qs (tenant_act mv c)"
proof -
  obtain cs m where c: "c = (cs, m)" by fastforce
  have inv: "rm_quotas m = qs" "\<And>i. k \<le> i \<Longrightarrow> cs i = None"
    "\<And>t q. qs t = Some q \<Longrightarrow> unat (active_count m t) + pending k cs t \<le> unat (tq_max_concurrent q) + (k - 1)"
    using assms(1) by (auto simp: overshoot_inv_def c)
  show ?thesis
  proof (cases mv)
    case (Check i t)
    show ?thesis
    proof (cases "cs i = None \<and> can_execute t m = Inr True")
      case True
      with Check assms(2) have i: "i < k" "cs i = None" and ok: "can_execute t m = Inr True" by auto
      have "unat (active_count m t) + Suc (pending k cs t) \<le> unat (tq_max_concurrent q) + (k - 1)"
        if "qs t = Some q" for q
        using can_execute_room [OF ok] pending_check(2) [of i k cs t, OF i] that inv(1) by fastforce
      then show ?thesis
        using True i inv by (auto simp: overshoot_inv_def c Check pending_check(1) [of i k cs, OF i])
    qed (use assms(1) in \<open>auto simp: c Check\<close>)
  next
    case (Start i)
    show ?thesis
    proof (cases "cs i")
      case (Some t)
      then have i: "i < k" using inv(2) [of i] by (cases "i < k") auto
      note p = pending_start [of i k cs, OF i Some]
      show ?thesis
      proof (cases "record_execution_start True t m")
        case None
        have "unat (active_count m t') + pending k (cs(i := None)) t' \<le> unat (tq_max_concurrent q) + (k - 1)"
          if "qs t' = Some q" for t' q
          using inv(3) [OF that] p [of t'] by (simp split: if_splits)
        then show ?thesis using inv Some None by (auto simp: overshoot_inv_def c Start)
      next
        case m': (Some m')
        have "unat (active_count m' t') + pending k (cs(i := None)) t' \<le> unat (tq_max_concurrent q) + (k - 1)"
          if "qs t' = Some q" for t' q
          using inv(3) [OF that] p [of t'] start_count(2) [OF m', of t'] by (simp split: if_splits)
        then show ?thesis using inv Some m' start_count(1) [OF m'] by (auto simp: overshoot_inv_def c Start)
      qed
    qed (use assms(1) in \<open>simp add: c Start\<close>)
  next
    case (Finish t)
    have "unat (active_count (record_execution_end t m) t') + pending k cs t' \<le> unat (tq_max_concurrent q) + (k - 1)"
      if "qs t' = Some q" for t' q
      using inv(3) [OF that] end_count_le [of t m t'] by linarith
    then show ?thesis using inv by (auto simp: overshoot_inv_def c Finish)
  qed
qed

lemma overshoot_inv_start: "within_limits m \<Longrightarrow> overshoot_inv k (rm_quotas m) (\<lambda>_. None, m)"
  by (auto simp: overshoot_inv_def within_limits_def pending_def word_le_nat_alt trans_le_add1)

lemma tenant_acts_inv:
  "overshoot_inv k qs c \<Longrightarrow> \<forall>mv \<in> set mvs. callers_below k mv \<Longrightarrow> overshoot_inv k qs (fold tenant_act mvs c)"
  by (induction mvs arbitrary: c) (simp_all add: tenant_act_inv)

text \<open>
  C25: With \<open>k\<close> concurrent callers that check before every start, a tenant is never more than
  \<open>k - 1\<close> executions over its limit, whatever the order of checks, starts, and ends, also surplus
  ones. A single caller keeps every tenant within its limit.
\<close>

theorem tenant_overshoot_bounded:
  assumes "within_limits m" and "rm_quotas m t = Some q" and "\<forall>mv \<in> set mvs. callers_below k mv"
  shows "unat (active_count (snd (fold tenant_act mvs (\<lambda>_. None, m))) t) \<le> unat (tq_max_concurrent q) + (k - 1)
    \<and> rm_quotas (snd (fold tenant_act mvs (\<lambda>_. None, m))) = rm_quotas m"
  using tenant_acts_inv [OF overshoot_inv_start [OF assms(1)] assms(3)] assms(2) by (fastforce simp: overshoot_inv_def)

section \<open>The bound is reached\<close>

lemma checks_all:
  assumes "can_execute t m = Inr True"
  shows "fold tenant_act (map (\<lambda>i. Check i t) [0..<k]) (\<lambda>_. None, m) = (\<lambda>i. if i < k then Some t else None, m)"
  using assms by (induction k) (auto simp: fun_eq_iff less_Suc_eq)

lemma start_room:
  assumes "unat (active_count m t) + 1 < 2 ^ 32"
  obtains m' where "record_execution_start True t m = Some m'"
  using add_chk_no_overflow(1) [of "active_count m t" 1 True] assms by (auto simp: record_execution_start_def)

lemma starts_all:
  "\<forall>i < k. cs i = Some t \<Longrightarrow> unat (active_count m t) + k < 2 ^ 32 \<Longrightarrow>
   \<exists>m'. fold tenant_act (map Start [0..<k]) (cs, m) = (\<lambda>i. if i < k then None else cs i, m')
     \<and> unat (active_count m' t) = unat (active_count m t) + k"
proof (induction k)
  case (Suc k)
  then obtain m1 where m1: "fold tenant_act (map Start [0..<k]) (cs, m) = (\<lambda>i. if i < k then None else cs i, m1)"
    "unat (active_count m1 t) = unat (active_count m t) + k" by auto
  with Suc.prems(2) obtain m2 where m2: "record_execution_start True t m1 = Some m2"
    using start_room [of m1 t] by auto
  have "fold tenant_act (map Start [0..<Suc k]) (cs, m) = (\<lambda>i. if i < Suc k then None else cs i, m2)"
    using Suc.prems(1) m1(1) m2 by (auto simp: fun_eq_iff less_Suc_eq)
  with start_count(2) [OF m2, of t] m1(2) show ?case by auto
qed simp

lemma overshoot_reached:
  assumes "rm_quotas m t = Some q" "unat (active_count m t) + 1 = unat (tq_max_concurrent q)"
    and "unat (tq_max_concurrent q) + k \<le> 2 ^ 32"
  shows "unat (active_count (snd (fold tenant_act (map (\<lambda>i. Check i t) [0..<k] @ map Start [0..<k]) (\<lambda>_. None, m))) t) + 1
    = unat (tq_max_concurrent q) + k"
proof -
  have can: "can_execute t m = Inr True" using assms(1,2) by (simp add: can_execute_def word_le_nat_alt)
  have "unat (active_count m t) + k < 2 ^ 32" using assms(2,3) by simp
  from starts_all [of k "\<lambda>i. if i < k then Some t else None", OF _ this] assms(2)
  show ?thesis by (auto simp: checks_all [OF can])
qed

theorem tenant_overshoot_bounded_witness:
  "let q = \<lparr>tq_tenant_id = ''t'', tq_max_concurrent = 1, tq_max_memory_mb = 1, tq_max_fuel = 1, tq_rate_limit_per_minute = 1\<rparr>;
       m = register_tenant q resource_manager_new;
       mvs = [Check 0 ''t'', Check 1 ''t'', Start 0, Start 1, Check 0 ''t'', Start 0]
   in unat (active_count (snd (fold tenant_act mvs (\<lambda>_. None, m))) ''t'') = 2
    \<and> unat (active_count (snd (fold tenant_act mvs (\<lambda>_. None, m))) ''t'') \<le> 1 + (2 - 1)"
proof -
  let ?q = "\<lparr>tq_tenant_id = ''t'', tq_max_concurrent = 1, tq_max_memory_mb = 1, tq_max_fuel = 1, tq_rate_limit_per_minute = 1\<rparr>"
  let ?m = "register_tenant ?q resource_manager_new"
  let ?mvs = "[Check 0 ''t'', Check 1 ''t'', Start 0, Start 1, Check 0 ''t'', Start 0]"
  have "within_limits ?m" "rm_quotas ?m ''t'' = Some ?q" "\<forall>mv \<in> set ?mvs. callers_below 2 mv"
    by (simp_all add: within_limits_def register_tenant_def resource_manager_new_def active_count_def)
  note tenant_overshoot_bounded [OF this]
  moreover have "unat (active_count (snd (fold tenant_act ?mvs (\<lambda>_. None, ?m))) ''t'') = 2"
    by (simp add: register_tenant_def resource_manager_new_def active_count_def can_execute_def
        record_execution_start_def add_chk_def)
  ultimately show ?thesis by (simp only: Let_def tenant_quota.simps unat_1)
qed

end
