(* ===== verification/Spec2Isabelle.thy ===== *)
theory Spec2Isabelle
  imports TestsCore TestsNet TestsNode TestsClient TestsGeometry
    Prelude F64 CoreTypes GraphStore DataPlane WasmRuntime Metrics StepControl Normalizer Simplex Warmup
    Cluster Control Pipeline Gossip Routing Protocol Sdk Cli
    ControlThreads Serializable PlaneSpec StepAccuracy Membership GossipNet WasmThreads
begin

text \<open>
  KinePlex, a distributed data plane in Rust, as definitions and theorems. A client (\<open>Sdk\<close>, \<open>Cli\<close>)
  submits a graph over HTTP; the control plane of a node (\<open>Control\<close>) checks credentials and tenant
  quotas, stores the graph and allocates ready nodes of the cluster (\<open>Cluster\<close>); the pipeline
  executor (\<open>Pipeline\<close>) and the core's own executor (\<open>GraphStore\<close>) run its stages over record
  batches (\<open>DataPlane\<close>) with user code in Wasm (\<open>WasmRuntime\<close>); nodes learn of each other by gossip
  (\<open>Gossip\<close>, \<open>Routing\<close>) in versioned messages (\<open>Protocol\<close>). Beside this run metrics and service
  levels (\<open>Metrics\<close>) and the geometric control of the flow: the adaptive step (\<open>StepControl\<close>), the
  volume normalisation (\<open>Normalizer\<close>), the triangle complex (\<open>Simplex\<close>) and the warm-up (\<open>Warmup\<close>).

  Theories and the code they model (under \<open>src/\<close>):

    \<open>Prelude\<close>      machine integers, hash maps and their iteration orders, decimal rendering, and
                 the interfaces: \<open>bounded_window\<close>, \<open>status_table\<close> and its extension \<open>claim_table\<close>,
                 \<open>quota_gate\<close>, \<open>invariant_system\<close>
    \<open>F64\<close>          IEEE binary64 over the rationals: rounding, arithmetic, order
    \<open>CoreTypes\<close>    \<open>kineplex-core/src/lib.rs\<close>, \<open>error.rs\<close>
    \<open>GraphStore\<close>   \<open>kineplex-core/src/graph.rs\<close>
    \<open>DataPlane\<close>    \<open>kineplex-core/src/data.rs\<close>
    \<open>WasmRuntime\<close>  \<open>kineplex-core/src/wasm.rs\<close>
    \<open>Metrics\<close>      \<open>kineplex-core/src/metrics.rs\<close>
    \<open>StepControl\<close>, \<open>Normalizer\<close>, \<open>Simplex\<close>, \<open>Warmup\<close>
                 \<open>kineplex-core/src/geometry.rs\<close> (FT-089, FT-090, FT-091, FT-092)
    \<open>Cluster\<close>      \<open>kineplex-node/src/lib.rs\<close>
    \<open>Control\<close>      \<open>kineplex-node/src/control.rs\<close>
    \<open>Pipeline\<close>     \<open>kineplex-node/src/execution.rs\<close>
    \<open>Gossip\<close>       \<open>kineplex-net/src/lib.rs\<close>, \<open>gossip.rs\<close>
    \<open>Routing\<close>      \<open>kineplex-net/src/routing.rs\<close>
    \<open>Protocol\<close>     \<open>kineplex-net/src/protocol.rs\<close>
    \<open>ControlThreads\<close> the control plane under concurrent callers
    \<open>Serializable\<close> interleaved submissions to the graph store against sequential ones
    \<open>PlaneSpec\<close>    an abstract specification of the control plane, which \<open>Control\<close> refines
    \<open>Membership\<close>   routes as they follow from the membership table
    \<open>GossipNet\<close>    a network of members that gossip, with messages delayed, lost and repeated
    \<open>WasmThreads\<close>  the tenant limits under concurrent callers
    \<open>StepAccuracy\<close> the adaptive step against the exact PID law
    \<open>Sdk\<close>, \<open>Cli\<close>    \<open>kineplex-sdk/src\<close>, \<open>kineplex-sdk-macros/src\<close>, \<open>kineplex-cli/src\<close>
    \<open>TestsCore\<close>, \<open>TestsNet\<close>, \<open>TestsNode\<close>, \<open>TestsClient\<close>, \<open>TestsGeometry\<close>
                 the unit tests of these files, replayed on the definitions

  Conventions. A struct is a record, an enum a datatype, a method a function from the arguments
  and the old state to the new state and the result; \<open>Result\<close> is a sum. A panic (overflow of an
  unchecked \<open>+\<close>, \<open>clamp\<close> with unordered limits, \<open>remove\<close> on an empty vector, \<open>unwrap\<close>) is \<open>None\<close> of an
  option around the result; \<open>checks\<close> says whether the build has overflow checks. A \<open>HashMap\<close> is a
  partial map, and an operation that iterates one takes the iteration order \<open>es\<close> with \<open>iterates es m\<close>:
  statements hold for every order. Clocks, random identifiers and what other crates compute are
  arguments. Values behind a lock are passed as state; where a method takes a lock more than once
  its critical sections are modelled as separate steps beside the method as a whole
  (\<open>submit_action\<close> and \<open>execute_action\<close> for \<open>DistributedGraphExecutor::submit\<close> and \<open>execute\<close>, \<open>control_action\<close> for
  \<open>NodeControl::submit\<close> and \<open>handle_node_failure\<close>, \<open>exec_step\<close> for \<open>PipelineExecutor::execute\<close>), and a lemma shows that
  uninterrupted steps are the method.

  What the lemmas show. \<open>GraphStore\<close>: execution, idempotent submission alone and in every
  interleaving, the interleaving in which one key creates two graphs, and that no execution notices
  a cancellation made between its steps; \<open>Serializable\<close>: under
  different keys every interleaving is a sequential execution. \<open>Cluster\<close> and \<open>Control\<close>:
  allocation gives distinct ready nodes and claims them, every answer of \<open>submit\<close> is
  characterised, node failure reallocates, and the branches the code never reaches are exhibited;
  \<open>ControlThreads\<close>: quotas hold however callers interleave, and two interleavings that go wrong, a
  node given out twice and a failure overwritten, and that every submission returns within a
  number of its own steps that depends on the nodes it asks for alone; \<open>PlaneSpec\<close>: every run of events is, with the
  answers its callers see, a run of a small specification of free, busy and down nodes and of
  submissions left, from which it follows that capacity is never given back. \<open>StepControl\<close>: the
  PID law over doubles stays within its limits and is antimonotone, for positive gains of at most 1 and
  ordered limits; \<open>StepAccuracy\<close>: for inputs up to 1024 it is within \<open>2 powi (-38)\<close> of the exact law. \<open>Simplex\<close>: symmetry, the
  handshake lemma, every three-clique once, and the search as the partition into components.
  \<open>Gossip\<close>: merging is a per-node maximum, hence convergent, and which members learn of a failure; \<open>GossipNet\<close>: what any
  run of sends and deliveries spreads, and a round through a hub that informs everyone;
  \<open>Membership\<close>: what the router makes of the table. \<open>WasmThreads\<close>: \<open>k\<close> callers overshoot a
  tenant's limit by at most \<open>k - 1\<close>, and can. \<open>Metrics\<close>: counters, and the p95 index in spite of rounding. \<open>Tests*\<close>: the
  assertions of the repository's unit tests hold of the definitions, for every drawn identifier,
  clock reading and iteration order, in exact binary64 where they compute with doubles. Here, after
  all components: the two executors give the same answers.

  Interfaces. \<open>status_table\<close> is interpreted by the graph store (\<open>gs\<close>), \<open>claim_table\<close> by the cluster
  (\<open>cl\<close>), \<open>quota_gate\<close> by the control plane (\<open>qg\<close>) and the Wasm tenants (\<open>tg\<close>), \<open>bounded_window\<close> by
  the epsilon history (\<open>eh\<close>), the warm-up history (\<open>mh\<close>) and the latency window (\<open>sw\<close>),
  \<open>invariant_system\<close> by the submission threads (\<open>ss\<close>), the control plane (\<open>nc\<close>) and its threads
  (\<open>sys\<close>), and the router (\<open>rs\<close>).

  Bounds and fuel. \<open>dfs_collect\<close> recurses with a depth bound; \<open>Simplex\<close> shows that the number of
  nodes is enough. Counts converted to \<open>f64\<close> are exact up to \<open>2 ^ 53\<close>; statements that
  need it say so. The PID statements assume magnitudes up to \<open>2 powi 1000\<close>, the accuracy statement up to \<open>2 powi 10\<close>.

  Not modelled: the kernel module, the BPF program and its loader (C), the benchmark and test
  scripts, logging, argument parsing, HTTP transport, serialisation (\<open>serde\<close>), and the third-party
  crates (Wasmtime, Arrow, Parquet, uuid, chrono, reqwest), which are parameters; of the unit tests
  those of serialisation, of debug output, of random identifiers and of files on disk.
\<close>

section \<open>Defaults across crates\<close>

text \<open>The client's default request asks for the limits the core and the Wasm runtime default to.\<close>

lemma defaults_agree:
  "cd_max_memory_mb graph_config_dto_default = Some (gc_max_memory_mb graph_config_default)"
  "cd_max_fuel graph_config_dto_default = Some (gc_max_fuel graph_config_default)"
  "cd_enable_simd graph_config_dto_default = Some (gc_enable_simd graph_config_default)"
  "wc_max_memory_mb wasm_config_default = gc_max_memory_mb graph_config_default"
  "wc_max_fuel wasm_config_default = gc_max_fuel graph_config_default"
  by (simp_all add: graph_config_dto_default_def graph_config_default_def wasm_config_default_def)

section \<open>The two executors\<close>

lemma stage_loop_times: "fst (stage_loop begun elapsed gid i stgs tms r) = record_stages elapsed i stgs tms"
  by (induction stgs arbitrary: i tms r) simp_all

lemma stage_loop_others: "k \<noteq> gid \<Longrightarrow> snd (stage_loop begun elapsed gid i stgs tms r) k = r k"
  by (induction stgs arbitrary: i tms r) (simp_all add: execute_stage_def split: option.splits)

text \<open>
  C27: The executor of the core and the pipeline executor of the node answer alike: for a stored
  graph, and with the same readings of the clock, both return the same result. The pipeline
  executor leaves no trace of the execution in its table and does not touch the others.
\<close>

theorem executors_agree:
  assumes "graphs s (g_id g) = Some g"
  shows "snd (pipeline_execute now begun elapsed total_ms node g r) = snd (executor_execute show_uuid elapsed total_ms (g_id g) s)
    \<and> get_execution_state (g_id g) (fst (pipeline_execute now begun elapsed total_ms node g r)) = None
    \<and> (\<forall>k. k \<noteq> g_id g \<longrightarrow> get_execution_state k (fst (pipeline_execute now begun elapsed total_ms node g r)) = r k)"
proof -
  let ?r = "r(g_id g \<mapsto> initial_state now node (g_id g))"
  obtain tms r' where l: "stage_loop begun elapsed (g_id g) 0 (g_stages g) Map.empty ?r = (tms, r')" by fastforce
  then have "tms = record_stages elapsed 0 (g_stages g) Map.empty" by (metis fst_conv stage_loop_times)
  moreover have "r' k = r k" if "k \<noteq> g_id g" for k
    using stage_loop_others [OF that, of begun elapsed 0 "g_stages g" Map.empty ?r] l that by simp
  ultimately show ?thesis
    by (simp add: pipeline_execute_def l executor_execute_known [OF assms] completed_result_def get_execution_state_def)
qed

theorem executors_agree_witness:
  "let g = create_simple_graph (GraphId 7) None; s = fst (create_graph g graph_store_new) in
   snd (pipeline_execute 0 (\<lambda>_. 0) of_nat 9 (NodeId ''n'') g pipeline_new) = snd (executor_execute (\<lambda>_. []) of_nat 9 (g_id g) s)"
proof -
  let ?g = "create_simple_graph (GraphId 7) None"
  have "graphs (fst (create_graph ?g graph_store_new)) (g_id ?g) = Some ?g" by (simp add: create_graph_def)
  from executors_agree [OF this] show ?thesis by (simp only: Let_def)
qed

end
